theory Spec2Isabelle
  imports Main "HOL-Library.Sublist"
begin

section \<open>Packages and their hashes\<close>

text \<open>
  The dependency graph of \<^verbatim>\<open>pkg/dag/graph.go\<close>. The file keeps its vertices and
  edges in a container of the library \<^verbatim>\<open>github.com/dominikbraun/graph\<close>, built by
  \<^verbatim>\<open>graph.New(packageHash, graph.Directed(), graph.Acyclic(), graph.PreventCycles())\<close>.
  The container, the package store (\<^verbatim>\<open>Packages\<close>, \<^verbatim>\<open>Configuration\<close>) and the resolver
  are not part of \<^verbatim>\<open>graph.go\<close>; what the functions of \<^verbatim>\<open>graph.go\<close> need of them is
  modelled in this section and the next, each definition saying where it comes from.
\<close>

text \<open>
  Modelled from the spec: \<^verbatim>\<open>Configuration\<close> (the build definition of an origin package)
  is declared outside \<^verbatim>\<open>graph.go\<close>. The fields are the ones \<^verbatim>\<open>graph.go\<close> reads:
  \<^verbatim>\<open>c.Name()\<close>, \<^verbatim>\<open>c.Version()\<close>, \<^verbatim>\<open>fullVersion(&c.Package)\<close>, the names of
  \<^verbatim>\<open>c.Subpackages\<close>, and \<^verbatim>\<open>c.Environment.Contents.{Repositories,Keyring,Packages}\<close>.
\<close>

record configuration =
  cfgName :: string
  cfgVersion :: string
  fullVersion :: string
  Subpackages :: "string list"
  Repositories :: "string list"
  Keyring :: "string list"
  EnvPackages :: "string list"

text \<open>
  Modelled from the spec: the local-repository sentinel \<^verbatim>\<open>Local\<close>, the source of every
  origin package, is declared outside \<^verbatim>\<open>graph.go\<close>.
\<close>

definition Local :: string where
  "Local = ''local''"

text \<open>
  Modelled from the spec: the three variants of the interface \<^verbatim>\<open>Package\<close>
  (\<^verbatim>\<open>Name()\<close>, \<^verbatim>\<open>Version()\<close>, \<^verbatim>\<open>Source()\<close>). An external package is built in
  \<^verbatim>\<open>graph.go\<close> as \<^verbatim>\<open>externalPackage{r.Name, r.Version, r.Repository().Uri}\<close>, a
  dangling one as \<^verbatim>\<open>danglingPackage{name}\<close>, whose version and source are empty.
\<close>

datatype package =
    OriginPackage configuration
  | ExternalPackage string string string
  | DanglingPackage string

fun Name :: "package \<Rightarrow> string" where
  "Name (OriginPackage c) = cfgName c"
| "Name (ExternalPackage n v s) = n"
| "Name (DanglingPackage n) = n"

fun Version :: "package \<Rightarrow> string" where
  "Version (OriginPackage c) = cfgVersion c"
| "Version (ExternalPackage n v s) = v"
| "Version (DanglingPackage n) = []"

fun Source :: "package \<Rightarrow> string" where
  "Source (OriginPackage c) = Local"
| "Source (ExternalPackage n v s) = s"
| "Source (DanglingPackage n) = []"

text \<open>\<^verbatim>\<open>packageHash\<close>: \<^verbatim>\<open>fmt.Sprintf("%s:%s@%s", p.Name(), p.Version(), p.Source())\<close>.\<close>

definition packageHash :: "package \<Rightarrow> string" where
  "packageHash p = Name p @ '':'' @ Version p @ ''@'' @ Source p"

section \<open>Errors\<close>

text \<open>
  Errors are values. The first constructors are the sentinel errors of the graph library;
  \<open>External\<close> is an error of a collaborator (resolver, index loader, file system,
  network); \<open>Errorf\<close> is \<^verbatim>\<open>fmt.Errorf\<close> with no wrapped error, \<open>Wrap\<close> is
  \<^verbatim>\<open>fmt.Errorf("...: %w", err)\<close>, and \<open>Join\<close> is \<^verbatim>\<open>errors.Join\<close>. The string is the
  constant part of the message.
\<close>

datatype error =
    ErrVertexNotFound
  | ErrVertexAlreadyExists
  | ErrEdgeNotFound
  | ErrEdgeAlreadyExists
  | ErrEdgeCreatesCycle
  | ErrTargetNotReachable
  | ErrNotExist
  | External string
  | Errorf string
  | Wrap string error
  | Join "error list"

text \<open>\<^verbatim>\<open>errors.Is(err, target)\<close> for a sentinel target: follows the chain of wrapped errors.\<close>

fun errorsIs :: "error \<Rightarrow> error \<Rightarrow> bool" where
  "errorsIs (Wrap m e) t = (Wrap m e = t \<or> errorsIs e t)"
| "errorsIs (Join es) t = (Join es = t \<or> (\<exists>e \<in> set es. errorsIs e t))"
| "errorsIs e t = (e = t)"

section \<open>The graph container\<close>

text \<open>
  Modelled from the spec: the vertex/edge container ("hash-keyed vertices, directed edges
  with optional attributes") is the in-memory store of the graph library, which is not
  under \<^verbatim>\<open>src/\<close>. Its maps are association lists in insertion order. An edge carries
  \<^verbatim>\<open>Properties.Attributes\<close>, a \<^verbatim>\<open>map[string]string\<close> that can be \<^verbatim>\<open>nil\<close>
  (\<open>None\<close>); the library's \<^verbatim>\<open>AddEdge\<close> allocates it before applying its options.
\<close>

record edge =
  edgeSource :: string
  edgeTarget :: string
  Attributes :: "(string \<times> string) list option"

record lgraph =
  vertices :: "(string \<times> package) list"
  edges :: "edge list"

definition newGraph :: lgraph where
  "newGraph = \<lparr>vertices = [], edges = []\<rparr>"

definition hashes :: "lgraph \<Rightarrow> string list" where
  "hashes l = map fst (vertices l)"

definition edgePairs :: "lgraph \<Rightarrow> (string \<times> string) list" where
  "edgePairs l = map (\<lambda>e. (edgeSource e, edgeTarget e)) (edges l)"

definition Vertex :: "lgraph \<Rightarrow> string \<Rightarrow> error + package" where
  "Vertex l h = (case map_of (vertices l) h of
                   None \<Rightarrow> Inl ErrVertexNotFound
                 | Some p \<Rightarrow> Inr p)"

definition Edge :: "lgraph \<Rightarrow> string \<Rightarrow> string \<Rightarrow> error + edge" where
  "Edge l s t = (case find (\<lambda>e. edgeSource e = s \<and> edgeTarget e = t) (edges l) of
                   None \<Rightarrow> Inl ErrEdgeNotFound
                 | Some e \<Rightarrow> Inr e)"

definition AddVertex :: "lgraph \<Rightarrow> package \<Rightarrow> error + lgraph" where
  "AddVertex l p =
     (if packageHash p \<in> set (hashes l) then Inl ErrVertexAlreadyExists
      else Inr (l\<lparr>vertices := vertices l @ [(packageHash p, p)]\<rparr>))"

text \<open>The predecessors of a vertex: one entry of the library's \<^verbatim>\<open>PredecessorMap\<close>.\<close>

definition predecessors :: "lgraph \<Rightarrow> string \<Rightarrow> string list" where
  "predecessors l v = map edgeSource (filter (\<lambda>e. edgeTarget e = v) (edges l))"

text \<open>
  The search of \<^verbatim>\<open>graph.CreatesCycle\<close>: a depth-first walk over the predecessor map,
  from the source of the prospective edge; the edge closes a cycle when the walk meets
  its target. The head of the first list is the top of the stack.
\<close>

function searchTarget :: "lgraph \<Rightarrow> string \<Rightarrow> string list \<Rightarrow> string list \<Rightarrow> bool" where
  "searchTarget l target [] visited = False"
| "searchTarget l target (cur # stack) visited =
     (if cur \<in> set visited then searchTarget l target stack visited
      else if cur = target then True
      else searchTarget l target (rev (predecessors l cur) @ stack) (cur # visited))"
  by pat_completeness auto

termination
proof (relation "inv_image (finite_psubset <*lex*> less_than)
         (\<lambda>(l, t, stack, visited). (set (map edgeTarget (edges l)) - set visited, length stack))")
  show "wf (inv_image (finite_psubset <*lex*> less_than)
         (\<lambda>(l, t, stack, visited). (set (map edgeTarget (edges l)) - set visited, length stack)))"
    by (intro wf_inv_image wf_lex_prod wf_finite_psubset wf_less_than)
next
  fix l :: lgraph and target cur :: string and stack visited :: "string list"
  assume "cur \<in> set visited"
  then show "((l, target, stack, visited), (l, target, cur # stack, visited))
      \<in> inv_image (finite_psubset <*lex*> less_than)
         (\<lambda>(l, t, stack, visited). (set (map edgeTarget (edges l)) - set visited, length stack))"
    by simp
next
  fix l :: lgraph and target cur :: string and stack visited :: "string list"
  assume nv: "cur \<notin> set visited"
  show "((l, target, rev (predecessors l cur) @ stack, cur # visited), (l, target, cur # stack, visited))
      \<in> inv_image (finite_psubset <*lex*> less_than)
         (\<lambda>(l, t, stack, visited). (set (map edgeTarget (edges l)) - set visited, length stack))"
  proof (cases "cur \<in> set (map edgeTarget (edges l))")
    case True
    with nv have "set (map edgeTarget (edges l)) - set (cur # visited)
        \<subset> set (map edgeTarget (edges l)) - set visited"
      by auto
    then show ?thesis by (simp add: finite_psubset_def)
  next
    case False
    then have "predecessors l cur = []"
      by (auto simp: predecessors_def filter_empty_conv)
    moreover from False have "set (map edgeTarget (edges l)) - set (cur # visited)
        = set (map edgeTarget (edges l)) - set visited"
      by auto
    ultimately show ?thesis by simp
  qed
qed

definition CreatesCycle :: "lgraph \<Rightarrow> string \<Rightarrow> string \<Rightarrow> error + bool" where
  "CreatesCycle l source target =
     (if source \<notin> set (hashes l) then Inl (Wrap ''could not get vertex'' ErrVertexNotFound)
      else if target \<notin> set (hashes l) then Inl (Wrap ''could not get vertex'' ErrVertexNotFound)
      else if source = target then Inr True
      else Inr (searchTarget l target [source] []))"

text \<open>
  \<^verbatim>\<open>AddEdge\<close> of a directed graph with \<^verbatim>\<open>PreventCycles\<close>. The last argument is the list
  of \<^verbatim>\<open>graph.EdgeAttribute(key, value)\<close> options of the call.
\<close>

definition AddEdge :: "lgraph \<Rightarrow> string \<Rightarrow> string \<Rightarrow> (string \<times> string) list \<Rightarrow> error + lgraph" where
  "AddEdge l s t attrs =
     (if s \<notin> set (hashes l) then Inl (Wrap ''source vertex'' ErrVertexNotFound)
      else if t \<notin> set (hashes l) then Inl (Wrap ''target vertex'' ErrVertexNotFound)
      else if (s, t) \<in> set (edgePairs l) then Inl ErrEdgeAlreadyExists
      else (case CreatesCycle l s t of
              Inl e \<Rightarrow> Inl (Wrap ''check for cycles'' e)
            | Inr True \<Rightarrow> Inl ErrEdgeCreatesCycle
            | Inr False \<Rightarrow>
                Inr (l\<lparr>edges := edges l @
                       [\<lparr>edgeSource = s, edgeTarget = t, Attributes = Some attrs\<rparr>]\<rparr>)))"

definition RemoveEdge :: "lgraph \<Rightarrow> string \<Rightarrow> string \<Rightarrow> error + lgraph" where
  "RemoveEdge l s t =
     (case Edge l s t of
        Inl e \<Rightarrow> Inl e
      | Inr _ \<Rightarrow> Inr (l\<lparr>edges := filter (\<lambda>e. \<not> (edgeSource e = s \<and> edgeTarget e = t)) (edges l)\<rparr>))"

section \<open>The Graph of graph.go\<close>

text \<open>
  Modelled from the spec: the package store \<^verbatim>\<open>Packages\<close> is declared outside
  \<^verbatim>\<open>graph.go\<close>. \<open>Packages\<close> is \<^verbatim>\<open>pkgs.Packages()\<close>, the origin packages in input
  order, and \<open>Config\<close> is \<^verbatim>\<open>pkgs.Config(name, false)\<close>, every known definition of a name.
\<close>

record Packages =
  Packages :: "configuration list"
  Config :: "string \<Rightarrow> configuration list"

record graphOptions =
  allowUnresolved :: bool
  repos :: "string list"
  keys :: "string list"

text \<open>
  \<^verbatim>\<open>type Graph struct\<close>. \<open>byName\<close> is a \<^verbatim>\<open>map[string][]string\<close>; a name that is not a
  key reads as the empty slice, as in Go.
\<close>

record Graph =
  Graph :: lgraph
  packages :: Packages
  opts :: graphOptions
  byName :: "string \<Rightarrow> string list"

text \<open>
  \<^verbatim>\<open>addVertex\<close>. A method that mutates the receiver returns the graph after the call
  together with its error (\<open>None\<close> is \<^verbatim>\<open>nil\<close>).
\<close>

definition addVertex :: "Graph \<Rightarrow> package \<Rightarrow> Graph \<times> error option" where
  "addVertex g pkg =
     (case AddVertex (Graph g) pkg of
        Inl err \<Rightarrow> (g, Some err)
      | Inr l \<Rightarrow>
          (g\<lparr>Graph := l,
             byName := (byName g)(Name pkg := byName g (Name pkg) @ [packageHash pkg])\<rparr>,
           None))"

text \<open>
  \<^verbatim>\<open>err != nil && !errors.Is(err, target)\<close>: the error, when it is one other than the
  target.
\<close>

definition failedOtherThan :: "error option \<Rightarrow> error \<Rightarrow> error option" where
  "failedOtherThan err t =
     (case err of
        None \<Rightarrow> None
      | Some e \<Rightarrow> if errorsIs e t then None else Some e)"

text \<open>\<^verbatim>\<open>addDanglingPackage\<close>: the edge to the placeholder carries no option.\<close>

definition addDanglingPackage :: "Graph \<Rightarrow> string \<Rightarrow> package \<Rightarrow> Graph \<times> error option" where
  "addDanglingPackage g name parent =
     (let pkg = DanglingPackage name in
      case addVertex g pkg of (g1, err) \<Rightarrow>
        (case failedOtherThan err ErrVertexAlreadyExists of
           Some e \<Rightarrow> (g1, Some e)
         | None \<Rightarrow>
             (case AddEdge (Graph g1) (packageHash parent) (packageHash pkg) [] of
                Inl e \<Rightarrow> (g1, failedOtherThan (Some e) ErrEdgeAlreadyExists)
              | Inr l \<Rightarrow> (g1\<lparr>Graph := l\<rparr>, None))))"

text \<open>
  Modelled from the spec: a candidate of the resolver ("name, version, source
  repository"), with the fields \<^verbatim>\<open>graph.go\<close> reads: \<^verbatim>\<open>r.Name\<close>, \<^verbatim>\<open>r.Version\<close>,
  \<^verbatim>\<open>r.Repository().IndexUri()\<close> and \<^verbatim>\<open>r.Repository().Uri\<close>. The resolver itself,
  \<^verbatim>\<open>resolver.ResolvePackage(dep)\<close>, is a parameter.
\<close>

record candidate =
  candName :: string
  candVersion :: string
  IndexUri :: string
  Uri :: string

type_synonym resolver = "string \<Rightarrow> error + candidate list"

text \<open>\<^verbatim>\<open>type cycle struct\<close>.\<close>

record cycle =
  src :: string
  target :: string

text \<open>
  The candidate loop of \<^verbatim>\<open>addAppropriatePackage\<close> (\<^verbatim>\<open>for _, r := range resolved\<close>).
  The loop variables \<^verbatim>\<open>pkg\<close> and \<^verbatim>\<open>cycleTarget\<close> are arguments. A \<^verbatim>\<open>return\<close> inside
  the loop is \<open>Inl\<close> with the graph, the cycle and the error returned; falling out of
  the loop is \<open>Inr\<close> with the graph and the two variables.
\<close>

fun scanResolved ::
  "string \<Rightarrow> package \<Rightarrow> string \<Rightarrow> candidate list \<Rightarrow> Graph \<Rightarrow> package option \<Rightarrow> string
     \<Rightarrow> (Graph \<times> cycle option \<times> error option) + (Graph \<times> package option \<times> string)" where
  "scanResolved dep c localRepo [] g pkg cycleTarget = Inr (g, pkg, cycleTarget)"
| "scanResolved dep c localRepo (r # rs) g pkg cycleTarget =
     (if candVersion r = Version c \<and> dep = Name c
      then scanResolved dep c localRepo rs g pkg cycleTarget
      else
        (case
           (if IndexUri r = localRepo
            then
              (let configs = Config (packages g) (candName r) in
               if configs = [] then Inl (Errorf ''unable to find package in local repository'')
               else
                 (case (case find (\<lambda>config. fullVersion config = candVersion r) configs of
                          Some config \<Rightarrow> Some (OriginPackage config)
                        | None \<Rightarrow> pkg) of
                    None \<Rightarrow> Inl (Errorf ''unable to find package in local repository'')
                  | Some p \<Rightarrow> Inr p))
            else Inr (ExternalPackage (candName r) (candVersion r) (Uri r)))
         of
           Inl e \<Rightarrow> Inl (g, None, Some e)
         | Inr p \<Rightarrow>
             (case addVertex g p of (g1, err) \<Rightarrow>
                (case failedOtherThan err ErrVertexAlreadyExists of
                   Some e \<Rightarrow> Inl (g1, None, Some (Wrap ''unable to add vertex for dependency'' e))
                 | None \<Rightarrow>
                     (let target = packageHash p in
                      if (case CreatesCycle (Graph g1) (packageHash c) target of
                            Inl e \<Rightarrow> True
                          | Inr isCycle \<Rightarrow> isCycle)
                      then scanResolved dep c localRepo rs g1 None
                             (if cycleTarget = [] then target else cycleTarget)
                      else
                        (case AddEdge (Graph g1) (packageHash c) target [(''target-origin'', dep)] of
                           Inr l \<Rightarrow> Inl (g1\<lparr>Graph := l\<rparr>, None, None)
                         | Inl e \<Rightarrow>
                             if errorsIs e ErrEdgeAlreadyExists then Inl (g1, None, None)
                             else Inl (g1, None, Some (Wrap ''add edge dependency error'' e))))))))"

text \<open>\<^verbatim>\<open>addAppropriatePackage\<close>: the graph after the call, the pending cycle and the error.\<close>

definition addAppropriatePackage ::
  "resolver \<Rightarrow> Graph \<Rightarrow> package \<Rightarrow> string \<Rightarrow> string \<Rightarrow> Graph \<times> cycle option \<times> error option" where
  "addAppropriatePackage resolver g c dep localRepo =
     (let unresolved = (case resolver dep of Inl e \<Rightarrow> True | Inr resolved \<Rightarrow> resolved = []) in
      if unresolved \<and> allowUnresolved (opts g) then
        (case addDanglingPackage g dep c of
           (g1, Some e) \<Rightarrow> (g1, None, Some (Wrap ''unable to add dangling package'' e))
         | (g1, None) \<Rightarrow> (g1, None, None))
      else if unresolved then
        (g, None, Some (case resolver dep of
                          Inl e \<Rightarrow> Wrap ''unable to resolve dependency'' e
                        | Inr resolved \<Rightarrow> Errorf ''unable to resolve dependency''))
      else
        (case scanResolved dep c localRepo (case resolver dep of Inl e \<Rightarrow> [] | Inr resolved \<Rightarrow> resolved)
                g None [] of
           Inl returned \<Rightarrow> returned
         | Inr (g1, pkg, cycleTarget) \<Rightarrow>
             if pkg = None then
               if cycleTarget \<noteq> [] then
                 (g1, Some \<lparr>src = packageHash c, target = cycleTarget\<rparr>, None)
               else if \<not> allowUnresolved (opts g1) then
                 (g1, None, Some (Errorf ''unfulfilled dependency''))
               else
                 (case addDanglingPackage g1 dep c of
                    (g2, Some e) \<Rightarrow> (g2, None, Some (Wrap ''unable to add dangling package'' e))
                  | (g2, None) \<Rightarrow> (g2, None, None))
             else (g1, None, None)))"

text \<open>
  \<^verbatim>\<open>resolveCycle\<close>. \<^verbatim>\<open>graph.ShortestPath\<close> is a parameter: the library's search picks
  among the paths of least length by the iteration order of its maps, and \<^verbatim>\<open>graph.go\<close>
  uses of the result only that it is an error or a list of hashes. A key that is not in
  \<^verbatim>\<open>edge.Properties.Attributes\<close> reads as the empty string, as in Go.
\<close>

type_synonym shortestPath = "lgraph \<Rightarrow> string \<Rightarrow> string \<Rightarrow> error + string list"

definition resolveCycle ::
  "shortestPath \<Rightarrow> resolver \<Rightarrow> Graph \<Rightarrow> cycle \<Rightarrow> string \<Rightarrow> string \<Rightarrow> Graph \<times> error option" where
  "resolveCycle ShortestPath resolver g c dep localRepoSource =
     (case ShortestPath (Graph g) (target c) (src c) of
        Inl err \<Rightarrow> (g, Some (Wrap ''unable to find shortest path'' err))
      | Inr sp \<Rightarrow>
          if length sp < 2 then (g, Some (Errorf ''there is no path''))
          else
            (let removeSrc = sp ! (length sp - 2); removeTarget = sp ! (length sp - 1) in
             case Edge (Graph g) removeSrc removeTarget of
               Inl err \<Rightarrow> (g, Some (Wrap ''unable to find last edge'' err))
             | Inr edge \<Rightarrow>
                 (case Attributes edge of
                    None \<Rightarrow> (g, Some (Errorf ''original edge has no attributes''))
                  | Some attributes \<Rightarrow>
                      (let origDep = (case map_of attributes ''target-origin'' of
                                        None \<Rightarrow> []
                                      | Some d \<Rightarrow> d) in
                       case RemoveEdge (Graph g) removeSrc removeTarget of
                         Inl err \<Rightarrow> (g, Some (Wrap ''unable to remove original edge'' err))
                       | Inr l1 \<Rightarrow>
                           (case AddEdge l1 (src c) (target c) [(''target-origin'', dep)] of
                              Inl err \<Rightarrow>
                                (g\<lparr>Graph := l1\<rparr>, Some (Wrap ''unable to add replacement edge'' err))
                            | Inr l2 \<Rightarrow>
                                (case Vertex l2 removeSrc of
                                   Inl err \<Rightarrow>
                                     (g\<lparr>Graph := l2\<rparr>,
                                      Some (Wrap ''unable to find original vertex'' err))
                                 | Inr config \<Rightarrow>
                                     (case addAppropriatePackage resolver (g\<lparr>Graph := l2\<rparr>) config
                                             origDep localRepoSource of
                                        (g3, cyc, Some err) \<Rightarrow>
                                          (g3, Some (Wrap ''unable to re-add original edge'' err))
                                      | (g3, Some cyc, None) \<Rightarrow>
                                          (g3, Some (Errorf ''unable re-add original edge with new dep still causes cycle''))
                                      | (g3, None, None) \<Rightarrow> (g3, None))))))))"

section \<open>Construction\<close>

text \<open>
  The collaborators of \<^verbatim>\<open>NewGraph\<close> and \<^verbatim>\<open>getKeyMaterial\<close>, as parameters: the URI
  and URL parsers (\<^verbatim>\<open>uri.Parse\<close>, \<^verbatim>\<open>uri.New\<close>, \<^verbatim>\<open>url.Parse\<close>), the file system
  (\<^verbatim>\<open>os.ReadFile\<close>), the network (\<open>clientGet\<close> is \<^verbatim>\<open>client.Get\<close> followed by
  \<^verbatim>\<open>io.Copy\<close> of the body into a buffer: the outer error is that of \<^verbatim>\<open>Get\<close>, the inner
  one that of \<^verbatim>\<open>Copy\<close>, the value is \<^verbatim>\<open>buf.Bytes()\<close>), the library's shortest-path
  search, the index loader \<^verbatim>\<open>apko.GetRepositoryIndexes\<close>, \<^verbatim>\<open>repo.Source()\<close>,
  \<^verbatim>\<open>pkgs.Repository(arch)\<close> and \<^verbatim>\<open>apko.NewPkgResolver\<close>. A byte slice is a string,
  \<^verbatim>\<open>nil\<close> is \<open>None\<close>.
\<close>

record url =
  Scheme :: string
  urlString :: string

record 'ix collaborators =
  uriParse :: "string \<Rightarrow> error + string"
  uriNew :: "string \<Rightarrow> string"
  urlParse :: "string \<Rightarrow> error + url"
  ReadFile :: "string \<Rightarrow> error + string"
  clientGet :: "string \<Rightarrow> error + (error + string option)"
  ShortestPath :: shortestPath
  GetRepositoryIndexes :: "string list \<Rightarrow> (string \<rightharpoonup> string) \<Rightarrow> string \<Rightarrow> error + 'ix list"
  indexSource :: "'ix \<Rightarrow> string"
  Repository :: "Packages \<Rightarrow> string \<Rightarrow> 'ix"
  NewPkgResolver :: "'ix list \<Rightarrow> resolver"

text \<open>\<^verbatim>\<open>getKeyMaterial\<close>: \<open>Inr None\<close> is the return \<^verbatim>\<open>nil, nil\<close>.\<close>

definition getKeyMaterial :: "'ix collaborators \<Rightarrow> string \<Rightarrow> error + string option" where
  "getKeyMaterial w key =
     (case (if prefix ''https://'' key
            then (case uriParse w key of
                    Inl err \<Rightarrow> Inl (Wrap ''failed to parse key as URI'' err)
                  | Inr u \<Rightarrow> Inr u)
            else Inr (uriNew w key)) of
        Inl e \<Rightarrow> Inl e
      | Inr asURI \<Rightarrow>
          (case urlParse w asURI of
             Inl err \<Rightarrow> Inl (Wrap ''failed to parse key as URI'' err)
           | Inr asURL \<Rightarrow>
               if Scheme asURL = ''file'' then
                 (case ReadFile w key of
                    Inl err \<Rightarrow>
                      if \<not> errorsIs err ErrNotExist
                      then Inl (Wrap ''failed to read repository'' err)
                      else Inr None
                  | Inr b \<Rightarrow> Inr (Some b))
               else if Scheme asURL = ''https'' then
                 (case clientGet w (urlString asURL) of
                    Inl err \<Rightarrow> Inl (Wrap ''unable to get key'' err)
                  | Inr body \<Rightarrow>
                      (case body of
                         Inl err \<Rightarrow> Inl (Wrap ''unable to read key'' err)
                       | Inr b \<Rightarrow> Inr b))
               else Inl (Errorf ''key scheme not supported'')))"

text \<open>A \<^verbatim>\<open>GraphOptions\<close> is a \<^verbatim>\<open>func(*graphOptions) error\<close>.\<close>

type_synonym GraphOptions = "graphOptions \<Rightarrow> error + graphOptions"

fun applyOptions :: "GraphOptions list \<Rightarrow> graphOptions \<Rightarrow> error + graphOptions" where
  "applyOptions [] gopts = Inr gopts"
| "applyOptions (option # options) gopts =
     (case option gopts of
        Inl err \<Rightarrow> Inl err
      | Inr gopts1 \<Rightarrow> applyOptions options gopts1)"

text \<open>
  Modelled from the spec: the option that sets the flag \<open>allowUnresolved\<close> is declared
  outside \<^verbatim>\<open>graph.go\<close>.
\<close>

definition WithAllowUnresolved :: GraphOptions where
  "WithAllowUnresolved gopts = Inr (gopts\<lparr>allowUnresolved := True\<rparr>)"

text \<open>
  The two loops over the subpackages of \<open>c\<close> (\<^verbatim>\<open>for i := range c.Subpackages\<close>,
  \<^verbatim>\<open>for _, subpkgVersion := range subpkg\<close>), on the graph and the list \<^verbatim>\<open>errs\<close>.
\<close>

fun addSubpackageVersions ::
  "configuration \<Rightarrow> configuration list \<Rightarrow> Graph \<times> error list \<Rightarrow> Graph \<times> error list" where
  "addSubpackageVersions c [] (g, errs) = (g, errs)"
| "addSubpackageVersions c (subpkgVersion # rest) (g, errs) =
     (if fullVersion subpkgVersion = fullVersion c then addSubpackageVersions c rest (g, errs)
      else
        (case addVertex g (OriginPackage subpkgVersion) of (g1, err) \<Rightarrow>
           (case failedOtherThan err ErrVertexAlreadyExists of
              Some e \<Rightarrow>
                addSubpackageVersions c rest
                  (g1, errs @ [Wrap ''unable to add vertex for subpackage'' e])
            | None \<Rightarrow>
                (case AddEdge (Graph g1) (packageHash (OriginPackage subpkgVersion))
                        (packageHash (OriginPackage c)) [] of
                   Inl e \<Rightarrow>
                     (case failedOtherThan (Some e) ErrEdgeAlreadyExists of
                        Some e' \<Rightarrow>
                          addSubpackageVersions c rest
                            (g1, errs @ [Wrap ''unable to add edge for subpackage'' e'])
                      | None \<Rightarrow> addSubpackageVersions c rest (g1, errs))
                 | Inr l \<Rightarrow> addSubpackageVersions c rest (g1\<lparr>Graph := l\<rparr>, errs)))))"

fun addSubpackages ::
  "Packages \<Rightarrow> configuration \<Rightarrow> string list \<Rightarrow> Graph \<times> error list \<Rightarrow> Graph \<times> error list" where
  "addSubpackages pkgs c [] st = st"
| "addSubpackages pkgs c (name # names) st =
     addSubpackages pkgs c names (addSubpackageVersions c (Config pkgs name) st)"

text \<open>
  \<^verbatim>\<open>for _, repo := range append(origRepos, opts.repos...)\<close>: the repositories still to
  load and the indexes found in the cache.
\<close>

fun splitRepos ::
  "(string \<rightharpoonup> 'ix) \<Rightarrow> string list \<Rightarrow> string list \<times> 'ix list \<Rightarrow> string list \<times> 'ix list" where
  "splitRepos indexes [] acc = acc"
| "splitRepos indexes (repo # rest) (missing, lookupRepos) =
     (case indexes repo of
        None \<Rightarrow> splitRepos indexes rest (missing @ [repo], lookupRepos)
      | Some index \<Rightarrow> splitRepos indexes rest (missing, lookupRepos @ [index]))"

text \<open>\<^verbatim>\<open>for _, key := range append(origKeys, opts.keys...)\<close>: an error returns at once.\<close>

fun loadKeys ::
  "'ix collaborators \<Rightarrow> string list \<Rightarrow> (string \<rightharpoonup> string) \<Rightarrow> error + (string \<rightharpoonup> string)" where
  "loadKeys w [] keyMap = Inr keyMap"
| "loadKeys w (key # rest) keyMap =
     (case getKeyMaterial w key of
        Inl err \<Rightarrow> Inl (Wrap ''failed to get key material'' err)
      | Inr b \<Rightarrow>
          (case b of
             None \<Rightarrow> loadKeys w rest keyMap
           | Some bytes \<Rightarrow> loadKeys w rest (keyMap(key \<mapsto> bytes))))"

text \<open>\<^verbatim>\<open>for _, repo := range loadedRepos\<close>.\<close>

fun recordIndexes ::
  "('ix \<Rightarrow> string) \<Rightarrow> 'ix list \<Rightarrow> (string \<rightharpoonup> 'ix) \<times> 'ix list \<Rightarrow> (string \<rightharpoonup> 'ix) \<times> 'ix list" where
  "recordIndexes source [] acc = acc"
| "recordIndexes source (repo # rest) (indexes, lookupRepos) =
     recordIndexes source rest (indexes(source repo \<mapsto> repo), lookupRepos @ [repo])"

text \<open>
  \<^verbatim>\<open>for _, buildDep := range c.Environment.Contents.Packages\<close>. The log line of a
  failed repair is not modelled.
\<close>

fun addBuildDeps ::
  "shortestPath \<Rightarrow> resolver \<Rightarrow> configuration \<Rightarrow> string \<Rightarrow> string list \<Rightarrow> Graph \<times> error list
     \<Rightarrow> Graph \<times> error list" where
  "addBuildDeps sp resolver c localRepoSource [] (g, errs) = (g, errs)"
| "addBuildDeps sp resolver c localRepoSource (buildDep # rest) (g, errs) =
     (if buildDep = [] then
        addBuildDeps sp resolver c localRepoSource rest
          (g, errs @ [Errorf ''empty package name in environment packages''])
      else
        (case addAppropriatePackage resolver g (OriginPackage c) buildDep localRepoSource of
           (g1, cyc, Some err) \<Rightarrow>
             addBuildDeps sp resolver c localRepoSource rest (g1, errs @ [err])
         | (g1, Some cyc, None) \<Rightarrow>
             (case resolveCycle sp resolver g1 cyc buildDep localRepoSource of
                (g2, Some err) \<Rightarrow>
                  addBuildDeps sp resolver c localRepoSource rest (g2, errs @ [err])
              | (g2, None) \<Rightarrow> addBuildDeps sp resolver c localRepoSource rest (g2, errs))
         | (g1, None, None) \<Rightarrow> addBuildDeps sp resolver c localRepoSource rest (g1, errs)))"

text \<open>
  The body of \<^verbatim>\<open>for _, c := range pkgs.Packages()\<close>, on the graph, the cache
  \<^verbatim>\<open>indexes\<close> and \<^verbatim>\<open>errs\<close>. \<open>Inl\<close> is a \<^verbatim>\<open>return nil, err\<close> inside the loop.
\<close>

definition addPackage ::
  "'ix collaborators \<Rightarrow> Packages \<Rightarrow> graphOptions \<Rightarrow> configuration
     \<Rightarrow> Graph \<times> (string \<rightharpoonup> 'ix) \<times> error list \<Rightarrow> error + (Graph \<times> (string \<rightharpoonup> 'ix) \<times> error list)" where
  "addPackage w pkgs gopts c st =
     (case st of (g, indexes, errs) \<Rightarrow>
      case addVertex g (OriginPackage c) of (g1, err) \<Rightarrow>
        (case failedOtherThan err ErrVertexAlreadyExists of
           Some e \<Rightarrow> Inr (g1, indexes, errs @ [e])
         | None \<Rightarrow>
             (case addSubpackages pkgs c (Subpackages c) (g1, errs) of (g2, errs2) \<Rightarrow>
              let arch = ''x86_64'' in
              case splitRepos indexes (Repositories c @ repos gopts) ([], []) of
                (missing, lookupRepos) \<Rightarrow>
                (case loadKeys w (Keyring c @ keys gopts) Map.empty of
                   Inl err \<Rightarrow> Inl err
                 | Inr keyMap \<Rightarrow>
                     (case (if missing \<noteq> [] then
                              (case GetRepositoryIndexes w missing keyMap arch of
                                 Inl err \<Rightarrow> Inl (Wrap ''unable to load repositories'' err)
                               | Inr loadedRepos \<Rightarrow>
                                   Inr (recordIndexes (indexSource w) loadedRepos
                                          (indexes, lookupRepos)))
                            else Inr (indexes, lookupRepos)) of
                        Inl err \<Rightarrow> Inl err
                      | Inr (indexes1, lookupRepos1) \<Rightarrow>
                          (let localRepo = Repository w pkgs arch;
                               resolver = NewPkgResolver w (lookupRepos1 @ [localRepo]);
                               localRepoSource = indexSource w localRepo in
                           case addBuildDeps (ShortestPath w) resolver c localRepoSource
                                  (EnvPackages c) (g2, errs2) of
                             (g3, errs3) \<Rightarrow> Inr (g3, indexes1, errs3)))))))"

fun buildLoop ::
  "'ix collaborators \<Rightarrow> Packages \<Rightarrow> graphOptions \<Rightarrow> configuration list
     \<Rightarrow> Graph \<times> (string \<rightharpoonup> 'ix) \<times> error list \<Rightarrow> error + (Graph \<times> (string \<rightharpoonup> 'ix) \<times> error list)" where
  "buildLoop w pkgs gopts [] st = Inr st"
| "buildLoop w pkgs gopts (c # cs) st =
     (case addPackage w pkgs gopts c st of
        Inl err \<Rightarrow> Inl err
      | Inr st1 \<Rightarrow> buildLoop w pkgs gopts cs st1)"

text \<open>\<^verbatim>\<open>NewGraph\<close>: \<open>Inl\<close> is the return of a \<^verbatim>\<open>nil\<close> graph with an error.\<close>

definition NewGraph :: "'ix collaborators \<Rightarrow> Packages \<Rightarrow> GraphOptions list \<Rightarrow> error + Graph" where
  "NewGraph w pkgs options =
     (case applyOptions options \<lparr>allowUnresolved = False, repos = [], keys = []\<rparr> of
        Inl err \<Rightarrow> Inl err
      | Inr gopts \<Rightarrow>
          (let g = \<lparr>Graph = newGraph, packages = pkgs, opts = gopts, byName = (\<lambda>name. [])\<rparr> in
           case buildLoop w pkgs gopts (Packages pkgs) (g, Map.empty, []) of
             Inl err \<Rightarrow> Inl err
           | Inr (g1, indexes, errs) \<Rightarrow>
               if errs \<noteq> [] then Inl (Wrap ''unable to build graph'' (Join errs))
               else Inr g1))"

section \<open>Queries and filters\<close>

text \<open>
  Modelled from the spec: the maps the library derives from its store. \<open>PredecessorMap\<close>
  gives every vertex the sources of the edges that point to it, \<open>AdjacencyMap\<close> the
  edges that leave it, keyed by their target.
\<close>

definition PredecessorMap :: "lgraph \<Rightarrow> (string \<times> string list) list" where
  "PredecessorMap l = map (\<lambda>h. (h, predecessors l h)) (hashes l)"

definition AdjacencyMap :: "lgraph \<Rightarrow> (string \<times> edge list) list" where
  "AdjacencyMap l = map (\<lambda>h. (h, filter (\<lambda>e. edgeSource e = h) (edges l))) (hashes l)"

text \<open>
  Modelled from the spec: \<^verbatim>\<open>graph.TopologicalSort\<close> ("full topological order over all
  vertices", "fails if the graph is non-acyclic"), as the library computes it, by Kahn's
  algorithm on the predecessor map: a vertex taken from the queue is appended to the
  order unless it was visited, it is deleted from every set of predecessors, and every
  vertex left with no predecessor is queued. The sort fails when the order misses a
  vertex.
\<close>

definition dropPredecessor :: "string \<Rightarrow> (string \<times> string list) list \<Rightarrow> (string \<times> string list) list" where
  "dropPredecessor v predecessorMap = map (\<lambda>(vertex, ps). (vertex, removeAll v ps)) predecessorMap"

definition noPredecessors :: "(string \<times> string list) list \<Rightarrow> string list" where
  "noPredecessors predecessorMap = map fst (filter (\<lambda>(vertex, ps). ps = []) predecessorMap)"

function kahn :: "(string \<times> string list) list \<Rightarrow> string list \<Rightarrow> string list \<Rightarrow> string list" where
  "kahn predecessorMap [] order = order"
| "kahn predecessorMap (currentVertex # queue) order =
     (if currentVertex \<in> set order then kahn predecessorMap queue order
      else kahn (dropPredecessor currentVertex predecessorMap)
             (queue @ noPredecessors (dropPredecessor currentVertex predecessorMap))
             (order @ [currentVertex]))"
  by pat_completeness auto

lemma fst_dropPredecessor: "map fst (dropPredecessor v pm) = map fst pm"
  by (induction pm) (auto simp: dropPredecessor_def)

lemma noPredecessors_keys: "set (noPredecessors pm) \<subseteq> fst ` set pm"
  by (auto simp: noPredecessors_def)

termination kahn
proof (relation "inv_image (finite_psubset <*lex*> less_than <*lex*> less_than)
         (\<lambda>(pm, queue, order).
            (fst ` set pm - set order, length (filter (\<lambda>v. v \<notin> fst ` set pm) queue), length queue))")
  show "wf (inv_image (finite_psubset <*lex*> less_than <*lex*> less_than)
         (\<lambda>(pm, queue, order).
            (fst ` set pm - set order, length (filter (\<lambda>v. v \<notin> fst ` set pm) queue), length queue)))"
    by (intro wf_inv_image wf_lex_prod wf_finite_psubset wf_less_than)
next
  fix pm :: "(string \<times> string list) list" and cur :: string and queue order :: "string list"
  assume "cur \<in> set order"
  then show "((pm, queue, order), (pm, cur # queue, order))
      \<in> inv_image (finite_psubset <*lex*> less_than <*lex*> less_than)
         (\<lambda>(pm, queue, order).
            (fst ` set pm - set order, length (filter (\<lambda>v. v \<notin> fst ` set pm) queue), length queue))"
    by simp
next
  fix pm :: "(string \<times> string list) list" and cur :: string and queue order :: "string list"
  assume nv: "cur \<notin> set order"
  have keys: "fst ` set (dropPredecessor cur pm) = fst ` set pm"
    using fst_dropPredecessor [of cur pm] by (metis set_map)
  have new: "filter (\<lambda>v. v \<notin> fst ` set pm) (noPredecessors (dropPredecessor cur pm)) = []"
    using noPredecessors_keys [of "dropPredecessor cur pm"] keys
    by (auto simp: filter_empty_conv)
  show "((dropPredecessor cur pm, queue @ noPredecessors (dropPredecessor cur pm), order @ [cur]),
         (pm, cur # queue, order))
      \<in> inv_image (finite_psubset <*lex*> less_than <*lex*> less_than)
         (\<lambda>(pm, queue, order).
            (fst ` set pm - set order, length (filter (\<lambda>v. v \<notin> fst ` set pm) queue), length queue))"
  proof (cases "cur \<in> fst ` set pm")
    case True
    with nv have "fst ` set pm - set (order @ [cur]) \<subset> fst ` set pm - set order"
      by auto
    then show ?thesis by (simp add: keys finite_psubset_def)
  next
    case False
    with nv have "fst ` set pm - set (order @ [cur]) = fst ` set pm - set order"
      by auto
    with False show ?thesis by (simp add: keys new)
  qed
qed

definition TopologicalSort :: "lgraph \<Rightarrow> error + string list" where
  "TopologicalSort l =
     (let predecessorMap = PredecessorMap l;
          order = kahn predecessorMap (noPredecessors predecessorMap) [] in
      if length order \<noteq> length (vertices l)
      then Inl (Errorf ''topological sort cannot be computed on graph with cycles'')
      else Inr order)"

text \<open>\<^verbatim>\<open>Sorted\<close>: the loop \<^verbatim>\<open>for i, n := range nodes\<close> returns at the first error.\<close>

fun vertexAll :: "lgraph \<Rightarrow> string list \<Rightarrow> error + package list" where
  "vertexAll l [] = Inr []"
| "vertexAll l (n # nodes) =
     (case Vertex l n of
        Inl err \<Rightarrow> Inl err
      | Inr p \<Rightarrow>
          (case vertexAll l nodes of
             Inl err \<Rightarrow> Inl err
           | Inr pkgs \<Rightarrow> Inr (p # pkgs)))"

definition Sorted :: "Graph \<Rightarrow> error + package list" where
  "Sorted g =
     (case TopologicalSort (Graph g) of
        Inl err \<Rightarrow> Inl err
      | Inr nodes \<Rightarrow> vertexAll (Graph g) nodes)"

text \<open>
  \<^verbatim>\<open>ReverseSorted\<close>: the loop
  \<^verbatim>\<open>for i, j := 0, len(pkgs)-1; i < j; i, j = i+1, j-1 { pkgs[i], pkgs[j] = pkgs[j], pkgs[i] }\<close>.
\<close>

function swapLoop :: "'a list \<Rightarrow> int \<Rightarrow> int \<Rightarrow> 'a list" where
  "swapLoop pkgs i j =
     (if i < j
      then swapLoop (pkgs[nat i := pkgs ! nat j, nat j := pkgs ! nat i]) (i + 1) (j - 1)
      else pkgs)"
  by pat_completeness auto

termination
  by (relation "measure (\<lambda>(pkgs, i, j). nat (j - i))") auto

definition ReverseSorted :: "Graph \<Rightarrow> error + package list" where
  "ReverseSorted g =
     (case Sorted g of
        Inl err \<Rightarrow> Inl err
      | Inr pkgs \<Rightarrow> Inr (swapLoop pkgs 0 (int (length pkgs) - 1)))"

text \<open>
  \<^verbatim>\<open>Filter\<close>. The two passes range over the adjacency map of the receiver: the first
  over its keys, the second over its entries, each with an inner loop over the edges
  of the entry (the key of an edge in that map is its target).
\<close>

fun filterVertices :: "lgraph \<Rightarrow> (package \<Rightarrow> bool) \<Rightarrow> string list \<Rightarrow> Graph \<Rightarrow> error + Graph" where
  "filterVertices l keep [] subgraph = Inr subgraph"
| "filterVertices l keep (node # nodes) subgraph =
     (case Vertex l node of
        Inl err \<Rightarrow> Inl err
      | Inr vertex \<Rightarrow>
          if \<not> keep vertex then filterVertices l keep nodes subgraph
          else
            (case addVertex subgraph vertex of (subgraph1, err) \<Rightarrow>
               (case failedOtherThan err ErrVertexAlreadyExists of
                  Some e \<Rightarrow> Inl e
                | None \<Rightarrow> filterVertices l keep nodes subgraph1)))"

fun filterDeps :: "edge list \<Rightarrow> Graph \<Rightarrow> error + Graph" where
  "filterDeps [] subgraph = Inr subgraph"
| "filterDeps (e # deps) subgraph =
     (case Vertex (Graph subgraph) (edgeTarget e) of
        Inl err \<Rightarrow> filterDeps deps subgraph
      | Inr v \<Rightarrow>
          (case AddEdge (Graph subgraph) (edgeSource e) (edgeTarget e) [] of
             Inl err \<Rightarrow>
               (case failedOtherThan (Some err) ErrEdgeAlreadyExists of
                  Some e' \<Rightarrow> Inl e'
                | None \<Rightarrow> filterDeps deps subgraph)
           | Inr l \<Rightarrow> filterDeps deps (subgraph\<lparr>Graph := l\<rparr>)))"

fun filterEdges :: "(string \<times> edge list) list \<Rightarrow> Graph \<Rightarrow> error + Graph" where
  "filterEdges [] subgraph = Inr subgraph"
| "filterEdges ((node, deps) # rest) subgraph =
     (case Vertex (Graph subgraph) node of
        Inl err \<Rightarrow> filterEdges rest subgraph
      | Inr v \<Rightarrow>
          (case filterDeps deps subgraph of
             Inl err \<Rightarrow> Inl err
           | Inr subgraph1 \<Rightarrow> filterEdges rest subgraph1))"

definition Filter :: "Graph \<Rightarrow> (package \<Rightarrow> bool) \<Rightarrow> error + Graph" where
  "Filter g keep =
     (let subgraph = \<lparr>Graph = newGraph, packages = packages g, opts = opts g,
                      byName = (\<lambda>name. [])\<rparr>;
          adjacencyMap = AdjacencyMap (Graph g) in
      case filterVertices (Graph g) keep (map fst adjacencyMap) subgraph of
        Inl err \<Rightarrow> Inl err
      | Inr subgraph1 \<Rightarrow> filterEdges adjacencyMap subgraph1)"

text \<open>The filters provided: \<^verbatim>\<open>FilterSources\<close>, \<^verbatim>\<open>FilterNotSources\<close>, \<^verbatim>\<open>FilterLocal\<close>,
  \<^verbatim>\<open>FilterNotLocal\<close>.\<close>

fun FilterSources :: "string list \<Rightarrow> package \<Rightarrow> bool" where
  "FilterSources [] p = False"
| "FilterSources (s # source) p = (if Source p = s then True else FilterSources source p)"

fun FilterNotSources :: "string list \<Rightarrow> package \<Rightarrow> bool" where
  "FilterNotSources [] p = True"
| "FilterNotSources (s # source) p = (if Source p = s then False else FilterNotSources source p)"

definition FilterLocal :: "package \<Rightarrow> bool" where
  "FilterLocal = FilterSources [Local]"

definition FilterNotLocal :: "package \<Rightarrow> bool" where
  "FilterNotLocal = FilterNotSources [Local]"

section \<open>Concrete inputs\<close>

text \<open>Small values on which the theorems below are evaluated.\<close>

definition emptyGraph :: "Packages \<Rightarrow> graphOptions \<Rightarrow> Graph" where
  "emptyGraph pkgs gopts = \<lparr>Graph = newGraph, packages = pkgs, opts = gopts, byName = (\<lambda>name. [])\<rparr>"

definition mkConfig :: "string \<Rightarrow> string \<Rightarrow> string list \<Rightarrow> string list \<Rightarrow> configuration" where
  "mkConfig n v subs deps =
     \<lparr>cfgName = n, cfgVersion = v, fullVersion = v, Subpackages = subs, Repositories = [],
      Keyring = [], EnvPackages = deps\<rparr>"

definition noPackages :: Packages where
  "noPackages = \<lparr>Packages = [], Config = (\<lambda>name. [])\<rparr>"

definition strict :: graphOptions where
  "strict = \<lparr>allowUnresolved = False, repos = [], keys = []\<rparr>"

text \<open>A shortest-path search for the examples: iterative deepening over the edges.\<close>

fun pathWithin :: "nat \<Rightarrow> (string \<times> string) list \<Rightarrow> string \<Rightarrow> string \<Rightarrow> string list option" where
  "pathWithin 0 es s t = (if s = t then Some [s] else None)"
| "pathWithin (Suc n) es s t =
     (if s = t then Some [s]
      else (case List.map_filter (\<lambda>(a, b). if a = s then pathWithin n es b t else None) es of
              [] \<Rightarrow> None
            | p # ps \<Rightarrow> Some (s # p)))"

fun deepen :: "nat \<Rightarrow> nat \<Rightarrow> (string \<times> string) list \<Rightarrow> string \<Rightarrow> string \<Rightarrow> error + string list" where
  "deepen 0 n es s t = Inl ErrTargetNotReachable"
| "deepen (Suc k) n es s t =
     (case pathWithin n es s t of
        Some p \<Rightarrow> Inr p
      | None \<Rightarrow> deepen k (Suc n) es s t)"

definition searchShortest :: shortestPath where
  "searchShortest l s t = deepen (Suc (length (edges l))) 0 (edgePairs l) s t"

text \<open>Two origin packages: \<open>a\<close> needs \<open>b\<close>, \<open>b\<close> needs \<open>a\<close>. The resolver offers the local
  \<open>b\<close> first and an upstream \<open>b\<close> second.\<close>

definition pkgA :: configuration where
  "pkgA = \<lparr>cfgName = ''a'', cfgVersion = ''1-r0'', fullVersion = ''1-r0'', Subpackages = [],
           Repositories = [''https://up''], Keyring = [], EnvPackages = [''b'']\<rparr>"

definition pkgB :: configuration where
  "pkgB = \<lparr>cfgName = ''b'', cfgVersion = ''1-r0'', fullVersion = ''1-r0'', Subpackages = [],
           Repositories = [''https://up''], Keyring = [], EnvPackages = [''a'']\<rparr>"

definition twoPackages :: Packages where
  "twoPackages =
     \<lparr>Packages = [pkgA, pkgB],
      Config = (\<lambda>name. if name = ''a'' then [pkgA] else if name = ''b'' then [pkgB] else [])\<rparr>"

definition tableResolver :: resolver where
  "tableResolver dep =
     (if dep = ''a'' then
        Inr [\<lparr>candName = ''a'', candVersion = ''1-r0'', IndexUri = ''local-index'', Uri = ''local''\<rparr>]
      else if dep = ''b'' then
        Inr [\<lparr>candName = ''b'', candVersion = ''1-r0'', IndexUri = ''local-index'', Uri = ''local''\<rparr>,
             \<lparr>candName = ''b'', candVersion = ''0.9-r0'', IndexUri = ''https://up/index'',
              Uri = ''https://up''\<rparr>]
      else Inr [])"

definition world :: "string collaborators" where
  "world =
     \<lparr>uriParse = Inr,
      uriNew = (\<lambda>key. ''file://'' @ key),
      urlParse = (\<lambda>u. Inr \<lparr>Scheme = takeWhile (\<lambda>ch. ch \<noteq> CHR '':'') u, urlString = u\<rparr>),
      ReadFile = (\<lambda>path. Inl ErrNotExist),
      clientGet = (\<lambda>u. Inl (External ''no network'')),
      ShortestPath = searchShortest,
      GetRepositoryIndexes = (\<lambda>uris keyMap arch. Inr uris),
      indexSource = (\<lambda>index. index),
      Repository = (\<lambda>pkgs arch. ''local-index''),
      NewPkgResolver = (\<lambda>indexes. tableResolver)\<rparr>"

section \<open>The container: cycle detection and its invariant\<close>

definition edgeRel :: "lgraph \<Rightarrow> (string \<times> string) set" where
  "edgeRel l = set (edgePairs l)"

lemma predecessors_iff: "u \<in> set (predecessors l v) \<longleftrightarrow> (u, v) \<in> edgeRel l"
  by (auto simp: predecessors_def edgeRel_def edgePairs_def)

lemma searchTarget_sound:
  "searchTarget l t stack visited \<Longrightarrow> \<exists>s \<in> set stack. (t, s) \<in> (edgeRel l)\<^sup>*"
proof (induction l t stack visited rule: searchTarget.induct)
  case (1 l target visited)
  then show ?case by simp
next
  case (2 l target cur stack visited)
  show ?case
  proof (cases "cur \<in> set visited")
    case True
    with 2 show ?thesis by auto
  next
    case nv: False
    show ?thesis
    proof (cases "cur = target")
      case True
      then show ?thesis by auto
    next
      case False
      with nv 2 obtain s where s: "s \<in> set (rev (predecessors l cur) @ stack)"
          and r: "(target, s) \<in> (edgeRel l)\<^sup>*"
        by auto
      show ?thesis
      proof (cases "s \<in> set stack")
        case True
        with r show ?thesis by auto
      next
        case False
        with s have "(s, cur) \<in> edgeRel l" by (simp add: predecessors_iff)
        with r have "(target, cur) \<in> (edgeRel l)\<^sup>*" by (rule rtrancl_into_rtrancl)
        then show ?thesis by auto
      qed
    qed
  qed
qed


declare searchTarget.simps [simp del]

lemma searchTarget_visited:
  "cur \<in> set visited \<Longrightarrow> searchTarget l t (cur # stack) visited = searchTarget l t stack visited"
  by (simp add: searchTarget.simps)

lemma searchTarget_found:
  "cur \<notin> set visited \<Longrightarrow> searchTarget l cur (cur # stack) visited"
  by (simp add: searchTarget.simps)

lemma searchTarget_push:
  "cur \<notin> set visited \<Longrightarrow> cur \<noteq> t \<Longrightarrow> searchTarget l t (cur # stack) visited
     = searchTarget l t (rev (predecessors l cur) @ stack) (cur # visited)"
  by (simp add: searchTarget.simps)

lemma searchTarget_closed:
  "\<not> searchTarget l t stack visited \<Longrightarrow> t \<notin> set visited
     \<Longrightarrow> \<forall>v \<in> set visited. set (predecessors l v) \<subseteq> set visited \<union> set stack
     \<Longrightarrow> \<exists>V. set visited \<union> set stack \<subseteq> V \<and> (\<forall>v \<in> V. set (predecessors l v) \<subseteq> V) \<and> t \<notin> V"
proof (induction l t stack visited rule: searchTarget.induct)
  case (1 l target visited)
  then show ?case by (intro exI [of _ "set visited"]) auto
next
  case (2 l target cur stack visited)
  show ?case
  proof (cases "cur \<in> set visited")
    case True
    from True "2.prems"(1) have "\<not> searchTarget l target stack visited"
      by (simp add: searchTarget_visited)
    moreover from True "2.prems"(3)
    have "\<forall>v \<in> set visited. set (predecessors l v) \<subseteq> set visited \<union> set stack"
      by auto
    ultimately obtain V where "set visited \<union> set stack \<subseteq> V"
        and "\<forall>v \<in> V. set (predecessors l v) \<subseteq> V" and "target \<notin> V"
      using "2.IH"(1) [OF True] "2.prems"(2) by blast
    with True show ?thesis by (intro exI [of _ V]) auto
  next
    case nv: False
    with "2.prems"(1) have ne: "cur \<noteq> target"
      using searchTarget_found by blast
    from nv ne "2.prems"(1)
    have "\<not> searchTarget l target (rev (predecessors l cur) @ stack) (cur # visited)"
      by (simp add: searchTarget_push)
    moreover from ne "2.prems"(2) have "target \<notin> set (cur # visited)" by auto
    moreover from "2.prems"(3) have "\<forall>v \<in> set (cur # visited).
        set (predecessors l v) \<subseteq> set (cur # visited) \<union> set (rev (predecessors l cur) @ stack)"
      by auto
    ultimately obtain V where "set (cur # visited) \<union> set (rev (predecessors l cur) @ stack) \<subseteq> V"
        and "\<forall>v \<in> V. set (predecessors l v) \<subseteq> V" and "target \<notin> V"
      using "2.IH"(2) [OF nv ne] by blast
    then show ?thesis by (intro exI [of _ V]) auto
  qed
qed


lemma closed_reach:
  assumes "(t, s) \<in> (edgeRel l)\<^sup>*" and "s \<in> V" and "\<forall>v \<in> V. set (predecessors l v) \<subseteq> V"
  shows "t \<in> V"
  using assms
proof (induction rule: converse_rtrancl_induct)
  case base
  then show ?case by simp
next
  case (step y z)
  then have "z \<in> V" by simp
  moreover from step have "y \<in> set (predecessors l z)" by (simp add: predecessors_iff)
  ultimately show ?case using step.prems by blast
qed

lemma searchTarget_iff:
  "searchTarget l t [s] [] \<longleftrightarrow> (t, s) \<in> (edgeRel l)\<^sup>*"
proof
  assume "searchTarget l t [s] []"
  then show "(t, s) \<in> (edgeRel l)\<^sup>*" using searchTarget_sound by fastforce
next
  assume r: "(t, s) \<in> (edgeRel l)\<^sup>*"
  show "searchTarget l t [s] []"
  proof (rule ccontr)
    assume "\<not> searchTarget l t [s] []"
    then obtain V where "s \<in> V" and "\<forall>v \<in> V. set (predecessors l v) \<subseteq> V" and "t \<notin> V"
      using searchTarget_closed [of l t "[s]" "[]"] by auto
    with r show False using closed_reach by blast
  qed
qed

lemma CreatesCycle_iff:
  assumes "s \<in> set (hashes l)" and "t \<in> set (hashes l)"
  shows "CreatesCycle l s t = Inr ((t, s) \<in> (edgeRel l)\<^sup>*)"
proof (cases "s = t")
  case True
  with assms show ?thesis by (simp add: CreatesCycle_def)
next
  case False
  with assms show ?thesis by (simp add: CreatesCycle_def searchTarget_iff)
qed

text \<open>The invariant of the container.\<close>

definition lgraph_ok :: "lgraph \<Rightarrow> bool" where
  "lgraph_ok l \<longleftrightarrow>
     distinct (hashes l) \<and>
     (\<forall>(h, p) \<in> set (vertices l). h = packageHash p) \<and>
     (\<forall>(s, t) \<in> set (edgePairs l). s \<in> set (hashes l) \<and> t \<in> set (hashes l)) \<and>
     distinct (edgePairs l) \<and>
     acyclic (edgeRel l)"

lemma lgraph_ok_newGraph: "lgraph_ok newGraph"
  by (simp add: lgraph_ok_def newGraph_def hashes_def edgePairs_def edgeRel_def acyclic_def)

lemma AddVertex_Inr:
  "AddVertex l p = Inr l' \<longleftrightarrow>
     packageHash p \<notin> set (hashes l) \<and> l' = l\<lparr>vertices := vertices l @ [(packageHash p, p)]\<rparr>"
  by (auto simp: AddVertex_def)

lemma AddVertex_ok: "lgraph_ok l \<Longrightarrow> AddVertex l p = Inr l' \<Longrightarrow> lgraph_ok l'"
  by (auto simp: lgraph_ok_def AddVertex_Inr hashes_def edgePairs_def edgeRel_def)

lemma AddVertex_edges: "AddVertex l p = Inr l' \<Longrightarrow> edges l' = edges l"
  by (auto simp: AddVertex_Inr)

lemma AddEdge_Inr:
  "AddEdge l s t attrs = Inr l' \<longleftrightarrow>
     s \<in> set (hashes l) \<and> t \<in> set (hashes l) \<and> (s, t) \<notin> edgeRel l \<and> (t, s) \<notin> (edgeRel l)\<^sup>* \<and>
     l' = l\<lparr>edges := edges l @ [\<lparr>edgeSource = s, edgeTarget = t, Attributes = Some attrs\<rparr>]\<rparr>"
proof (cases "s \<in> set (hashes l) \<and> t \<in> set (hashes l)")
  case True
  then show ?thesis
    by (auto simp: AddEdge_def CreatesCycle_iff edgeRel_def split: bool.splits)
next
  case False
  then show ?thesis by (auto simp: AddEdge_def)
qed

lemma AddEdge_vertices: "AddEdge l s t attrs = Inr l' \<Longrightarrow> vertices l' = vertices l"
  by (simp add: AddEdge_Inr)

lemma AddEdge_edgeRel: "AddEdge l s t attrs = Inr l' \<Longrightarrow> edgeRel l' = insert (s, t) (edgeRel l)"
  by (auto simp: AddEdge_Inr edgeRel_def edgePairs_def)

lemma AddEdge_ok:
  assumes "lgraph_ok l" and "AddEdge l s t attrs = Inr l'"
  shows "lgraph_ok l'"
proof -
  from assms(2) have e: "s \<in> set (hashes l)" "t \<in> set (hashes l)" "(s, t) \<notin> edgeRel l"
      "(t, s) \<notin> (edgeRel l)\<^sup>*"
      "l' = l\<lparr>edges := edges l @ [\<lparr>edgeSource = s, edgeTarget = t, Attributes = Some attrs\<rparr>]\<rparr>"
    by (simp_all add: AddEdge_Inr)
  have "acyclic (insert (s, t) (edgeRel l))"
    using assms(1) e(4) by (simp add: acyclic_insert lgraph_ok_def)
  then have "acyclic (edgeRel l')"
    by (simp add: AddEdge_edgeRel [OF assms(2)])
  moreover have "distinct (edgePairs l')"
    using assms(1) e(3) by (simp add: e(5) lgraph_ok_def edgePairs_def edgeRel_def)
  moreover have "\<forall>(a, b) \<in> set (edgePairs l'). a \<in> set (hashes l') \<and> b \<in> set (hashes l')"
    using assms(1) e(1,2) by (auto simp: e(5) lgraph_ok_def edgePairs_def hashes_def)
  moreover have "distinct (hashes l')" "\<forall>(h, p) \<in> set (vertices l'). h = packageHash p"
    using assms(1) by (auto simp: e(5) lgraph_ok_def hashes_def)
  ultimately show ?thesis by (simp add: lgraph_ok_def)
qed

lemma RemoveEdge_Inr:
  "RemoveEdge l s t = Inr l' \<Longrightarrow>
     l' = l\<lparr>edges := filter (\<lambda>e. \<not> (edgeSource e = s \<and> edgeTarget e = t)) (edges l)\<rparr>"
  by (auto simp: RemoveEdge_def split: sum.splits)

lemma RemoveEdge_edgeRel: "RemoveEdge l s t = Inr l' \<Longrightarrow> edgeRel l' = edgeRel l - {(s, t)}"
  by (auto simp: edgeRel_def edgePairs_def dest!: RemoveEdge_Inr)

lemma RemoveEdge_ok:
  assumes "lgraph_ok l" and "RemoveEdge l s t = Inr l'"
  shows "lgraph_ok l'"
proof -
  note e = RemoveEdge_Inr [OF assms(2)]
  have "acyclic (edgeRel l')"
    using assms(1) by (auto simp: RemoveEdge_edgeRel [OF assms(2)] lgraph_ok_def intro: acyclic_subset)
  moreover have "distinct (edgePairs l')"
    using assms(1) by (simp add: e lgraph_ok_def edgePairs_def distinct_map_filter)
  moreover have "\<forall>(a, b) \<in> set (edgePairs l'). a \<in> set (hashes l') \<and> b \<in> set (hashes l')"
    using assms(1) by (auto simp: e lgraph_ok_def edgePairs_def hashes_def)
  moreover have "distinct (hashes l')" "\<forall>(h, p) \<in> set (vertices l'). h = packageHash p"
    using assms(1) by (auto simp: e lgraph_ok_def hashes_def)
  ultimately show ?thesis by (simp add: lgraph_ok_def)
qed

section \<open>Adding a vertex twice\<close>

lemma AddVertex_hashes:
  "AddVertex l p = Inr l' \<Longrightarrow> hashes l' = hashes l @ [packageHash p]"
  by (auto simp: AddVertex_def hashes_def split: if_splits)

lemma AddVertex_present:
  "packageHash p \<in> set (hashes l) \<Longrightarrow> AddVertex l p = Inl ErrVertexAlreadyExists"
  by (simp add: AddVertex_def)

lemma addVertex_present:
  "packageHash p \<in> set (hashes (Graph g)) \<Longrightarrow> addVertex g p = (g, Some ErrVertexAlreadyExists)"
  by (simp add: addVertex_def AddVertex_present)

lemma addVertex_adds:
  "addVertex g p = (g', None) \<Longrightarrow> packageHash p \<in> set (hashes (Graph g'))"
  by (auto simp: addVertex_def dest: AddVertex_hashes split: sum.splits)

lemma packageHash_cong:
  "Name q = Name p \<Longrightarrow> Version q = Version p \<Longrightarrow> Source q = Source p
     \<Longrightarrow> packageHash q = packageHash p"
  by (simp add: packageHash_def)

text \<open>
  C8. Once a package has been added, adding a package with the same name, version and
  source again reports \<^verbatim>\<open>ErrVertexAlreadyExists\<close> and returns the graph as it was:
  the vertices, the edges and the \<open>byName\<close> index are those of the single addition.
\<close>

theorem addVertex_twice:
  assumes "addVertex g p = (g1, None)"
      and "Name q = Name p" and "Version q = Version p" and "Source q = Source p"
  shows "addVertex g1 q = (g1, Some ErrVertexAlreadyExists)"
proof -
  have "packageHash q \<in> set (hashes (Graph g1))"
    using addVertex_adds [OF assms(1)] packageHash_cong [OF assms(2-4)] by simp
  then show ?thesis by (rule addVertex_present)
qed

theorem addVertex_twice_witness:
  "addVertex (emptyGraph noPackages strict) (OriginPackage (mkConfig ''a'' ''1-r0'' [] []))
     = (fst (addVertex (emptyGraph noPackages strict) (OriginPackage (mkConfig ''a'' ''1-r0'' [] []))), None)
   \<and> addVertex (fst (addVertex (emptyGraph noPackages strict) (OriginPackage (mkConfig ''a'' ''1-r0'' [] []))))
        (OriginPackage (mkConfig ''a'' ''1-r0'' [] [''b'']))
     = (fst (addVertex (emptyGraph noPackages strict) (OriginPackage (mkConfig ''a'' ''1-r0'' [] []))),
        Some ErrVertexAlreadyExists)"
proof -
  have h: "addVertex (emptyGraph noPackages strict) (OriginPackage (mkConfig ''a'' ''1-r0'' [] []))
     = (fst (addVertex (emptyGraph noPackages strict) (OriginPackage (mkConfig ''a'' ''1-r0'' [] []))), None)"
    by (simp add: addVertex_def AddVertex_def emptyGraph_def newGraph_def hashes_def)
  show ?thesis
    using h addVertex_twice [OF h, of "OriginPackage (mkConfig ''a'' ''1-r0'' [] [''b''])"]
    by (simp add: mkConfig_def)
qed

section \<open>What the construction steps keep\<close>

text \<open>What every step of the construction keeps: the store, the options, the vertices
  already present, and the invariant of the container.\<close>

definition keeps :: "Graph \<Rightarrow> Graph \<Rightarrow> bool" where
  "keeps g g' \<longleftrightarrow>
     packages g' = packages g \<and> opts g' = opts g \<and>
     set (hashes (Graph g)) \<subseteq> set (hashes (Graph g')) \<and>
     (lgraph_ok (Graph g) \<longrightarrow> lgraph_ok (Graph g'))"

lemma keeps_refl: "keeps g g"
  by (simp add: keeps_def)

lemma keeps_trans: "keeps g g1 \<Longrightarrow> keeps g1 g2 \<Longrightarrow> keeps g g2"
  by (auto simp: keeps_def)

lemma addVertex_cases:
  assumes "addVertex g p = (g1, err)"
  shows "(g1 = g \<and> err = Some ErrVertexAlreadyExists \<and> packageHash p \<in> set (hashes (Graph g)))
       \<or> (err = None \<and> AddVertex (Graph g) p = Inr (Graph g1) \<and> packages g1 = packages g
            \<and> opts g1 = opts g)"
  using assms by (auto simp: addVertex_def AddVertex_def split: if_splits)

lemma addVertex_failedOtherThan:
  "addVertex g p = (g1, err) \<Longrightarrow> failedOtherThan err ErrVertexAlreadyExists = None"
  by (auto simp: failedOtherThan_def dest!: addVertex_cases)

lemma addVertex_edges: "addVertex g p = (g1, err) \<Longrightarrow> edges (Graph g1) = edges (Graph g)"
  by (auto dest!: addVertex_cases AddVertex_edges)

lemma addVertex_keeps: "addVertex g p = (g1, err) \<Longrightarrow> keeps g g1"
  by (auto simp: keeps_def dest!: addVertex_cases dest: AddVertex_ok AddVertex_hashes)


lemma edgeRel_edges: "edges l' = edges l \<Longrightarrow> edgeRel l' = edgeRel l"
  by (simp add: edgeRel_def edgePairs_def)

lemma keeps_Graph_update:
  assumes "AddEdge (Graph g) s t a = Inr l"
  shows "keeps g (g\<lparr>Graph := l\<rparr>)"
  using AddEdge_vertices [OF assms] AddEdge_ok [OF _ assms]
  by (simp add: keeps_def hashes_def)

lemma RemoveEdge_vertices: "RemoveEdge l s t = Inr l' \<Longrightarrow> vertices l' = vertices l"
  by (auto dest!: RemoveEdge_Inr)

lemma keeps_RemoveEdge:
  assumes "RemoveEdge (Graph g) s t = Inr l"
  shows "keeps g (g\<lparr>Graph := l\<rparr>)"
  using RemoveEdge_vertices [OF assms] RemoveEdge_ok [OF _ assms]
  by (simp add: keeps_def hashes_def)

text \<open>A call either leaves the edges alone or commits exactly the edge \<open>(s, t)\<close>.\<close>

definition commits :: "Graph \<Rightarrow> Graph \<Rightarrow> string \<Rightarrow> string \<Rightarrow> bool" where
  "commits g g' s t \<longleftrightarrow> edgeRel (Graph g') = insert (s, t) (edgeRel (Graph g))"

lemma addDanglingPackage_props:
  assumes "addDanglingPackage g name parent = (g', err)"
  shows "keeps g g'"
    and "err \<noteq> None \<Longrightarrow> edges (Graph g') = edges (Graph g)"
    and "err = None \<Longrightarrow> commits g g' (packageHash parent) (packageHash (DanglingPackage name))"
proof -
  obtain g1 e1 where av: "addVertex g (DanglingPackage name) = (g1, e1)"
    by (cases "addVertex g (DanglingPackage name)")
  note f = addVertex_failedOtherThan [OF av] and k = addVertex_keeps [OF av]
    and ed = addVertex_edges [OF av]
  show "keeps g g'"
    using assms av f k
    by (auto simp: addDanglingPackage_def Let_def split: sum.splits
          intro: keeps_trans [OF k keeps_Graph_update])
  show "edges (Graph g') = edges (Graph g)" if "err \<noteq> None"
    using assms av f ed that
    by (auto simp: addDanglingPackage_def Let_def split: sum.splits)
  show "commits g g' (packageHash parent) (packageHash (DanglingPackage name))" if "err = None"
  proof (cases "AddEdge (Graph g1) (packageHash parent) (packageHash (DanglingPackage name)) []")
    case (Inl e)
    with assms av f that have g': "g' = g1" and ei: "errorsIs e ErrEdgeAlreadyExists"
      by (auto simp: addDanglingPackage_def Let_def failedOtherThan_def split: if_splits)
    from Inl have "e = ErrEdgeAlreadyExists \<longrightarrow>
        (packageHash parent, packageHash (DanglingPackage name)) \<in> edgeRel (Graph g1)"
      by (auto simp: AddEdge_def edgeRel_def split: if_splits sum.splits bool.splits)
    moreover from Inl ei have "e = ErrEdgeAlreadyExists"
      by (auto simp: AddEdge_def CreatesCycle_def split: if_splits sum.splits bool.splits)
    ultimately show ?thesis
      using g' edgeRel_edges [OF ed] by (auto simp: commits_def)
  next
    case (Inr l)
    with assms av f have "g' = g1\<lparr>Graph := l\<rparr>"
      by (auto simp: addDanglingPackage_def Let_def)
    with AddEdge_edgeRel [OF Inr] edgeRel_edges [OF ed] show ?thesis
      by (simp add: commits_def)
  qed
qed

lemma AddEdge_exists:
  "AddEdge l s t a = Inl e \<Longrightarrow> errorsIs e ErrEdgeAlreadyExists \<Longrightarrow> (s, t) \<in> edgeRel l"
  by (auto simp: AddEdge_def CreatesCycle_def edgeRel_def split: if_splits sum.splits bool.splits)

text \<open>The outcome of the candidate loop.\<close>

definition scanned ::
  "Graph \<Rightarrow> package \<Rightarrow> package option
     \<Rightarrow> (Graph \<times> cycle option \<times> error option) + (Graph \<times> package option \<times> string) \<Rightarrow> bool" where
  "scanned g c pkg res =
     (case res of
        Inl (g', cyc, err) \<Rightarrow>
          keeps g g' \<and> cyc = None \<and>
          (case err of
             Some e \<Rightarrow> edges (Graph g') = edges (Graph g)
           | None \<Rightarrow> (\<exists>t. commits g g' (packageHash c) t))
      | Inr (g', pkg', cycleTarget') \<Rightarrow>
          keeps g g' \<and> edges (Graph g') = edges (Graph g) \<and> (pkg = None \<longrightarrow> pkg' = None))"

lemma scanned_step:
  assumes k: "keeps g g1" and ed: "edges (Graph g1) = edges (Graph g)" and s: "scanned g1 c None res"
  shows "scanned g c pkg res"
proof (cases res)
  case (Inl a)
  obtain g' cyc err where a: "a = (g', cyc, err)" by (cases a)
  from s Inl a have k': "keeps g1 g'" and c: "cyc = None" by (simp_all add: scanned_def)
  have kk: "keeps g g'" using k k' by (rule keeps_trans)
  show ?thesis
  proof (cases err)
    case None
    with s Inl a obtain t where "commits g1 g' (packageHash c) t"
      by (auto simp: scanned_def)
    then have "commits g g' (packageHash c) t"
      using edgeRel_edges [OF ed] by (simp add: commits_def)
    with kk c Inl a None show ?thesis by (auto simp: scanned_def)
  next
    case (Some e)
    with s Inl a have "edges (Graph g') = edges (Graph g1)" by (simp add: scanned_def)
    with kk c Inl a Some ed show ?thesis by (simp add: scanned_def)
  qed
next
  case (Inr b)
  obtain g' pkg' ct' where b: "b = (g', pkg', ct')" by (cases b)
  from s Inr b have k': "keeps g1 g'" and e: "edges (Graph g') = edges (Graph g1)"
      and p: "pkg' = None"
    by (simp_all add: scanned_def)
  have "keeps g g'" using k k' by (rule keeps_trans)
  with e ed p Inr b show ?thesis by (simp add: scanned_def)
qed

text \<open>The package a candidate stands for: the local definition or an external package.\<close>

definition candidatePackage :: "Graph \<Rightarrow> string \<Rightarrow> package option \<Rightarrow> candidate \<Rightarrow> error + package" where
  "candidatePackage g lr pkg r =
    (if IndexUri r = lr
     then
       (let configs = Config (packages g) (candName r) in
        if configs = [] then Inl (Errorf ''unable to find package in local repository'')
        else
          (case (case find (\<lambda>config. fullVersion config = candVersion r) configs of
                   Some config \<Rightarrow> Some (OriginPackage config)
                 | None \<Rightarrow> pkg) of
             None \<Rightarrow> Inl (Errorf ''unable to find package in local repository'')
           | Some p \<Rightarrow> Inr p))
     else Inr (ExternalPackage (candName r) (candVersion r) (Uri r)))"

lemma scanResolved_skip:
  "candVersion r = Version c \<and> dep = Name c \<Longrightarrow>
     scanResolved dep c lr (r # rs) g pkg ct = scanResolved dep c lr rs g pkg ct"
  by simp

lemma scanResolved_lookup_fails:
  "\<not> (candVersion r = Version c \<and> dep = Name c) \<Longrightarrow> candidatePackage g lr pkg r = Inl e \<Longrightarrow>
     scanResolved dep c lr (r # rs) g pkg ct = Inl (g, None, Some e)"
  unfolding candidatePackage_def by (simp only: scanResolved.simps if_False sum.case)

lemma scanResolved_candidate:
  assumes "\<not> (candVersion r = Version c \<and> dep = Name c)"
      and "candidatePackage g lr pkg r = Inr p" and "addVertex g p = (g1, err)"
  shows "scanResolved dep c lr (r # rs) g pkg ct =
     (if (case CreatesCycle (Graph g1) (packageHash c) (packageHash p) of
            Inl e \<Rightarrow> True
          | Inr isCycle \<Rightarrow> isCycle)
      then scanResolved dep c lr rs g1 None (if ct = [] then packageHash p else ct)
      else
        (case AddEdge (Graph g1) (packageHash c) (packageHash p) [(''target-origin'', dep)] of
           Inr l \<Rightarrow> Inl (g1\<lparr>Graph := l\<rparr>, None, None)
         | Inl e \<Rightarrow>
             if errorsIs e ErrEdgeAlreadyExists then Inl (g1, None, None)
             else Inl (g1, None, Some (Wrap ''add edge dependency error'' e))))"
  using assms(1,2) addVertex_failedOtherThan [OF assms(3)] assms(3)
  unfolding candidatePackage_def
  by (simp only: scanResolved.simps if_False sum.case prod.case option.case Let_def)

declare scanResolved.simps(2) [simp del]


lemma scanResolved_scanned: "scanned g c pkg (scanResolved dep c lr rs g pkg ct)"
proof (induction rs arbitrary: g pkg ct)
  case Nil
  show ?case by (simp add: scanned_def keeps_refl)
next
  case (Cons r rs)
  show ?case
  proof (cases "candVersion r = Version c \<and> dep = Name c")
    case True
    then show ?thesis using Cons.IH [of g pkg ct] by (simp add: scanResolved_skip)
  next
    case ns: False
    show ?thesis
    proof (cases "candidatePackage g lr pkg r")
      case (Inl e)
      show ?thesis
        unfolding scanResolved_lookup_fails [OF ns Inl]
        by (simp add: scanned_def keeps_refl)
    next
      case (Inr p)
      obtain g1 err where av: "addVertex g p = (g1, err)"
        by (cases "addVertex g p")
      note k = addVertex_keeps [OF av] and ed = addVertex_edges [OF av]
      note step = scanResolved_candidate [OF ns Inr av, of rs ct]
      show ?thesis
      proof (cases "case CreatesCycle (Graph g1) (packageHash c) (packageHash p) of
                      Inl e \<Rightarrow> True | Inr isCycle \<Rightarrow> isCycle")
        case True
        then have "scanResolved dep c lr (r # rs) g pkg ct =
            scanResolved dep c lr rs g1 None (if ct = [] then packageHash p else ct)"
          by (simp only: step if_True)
        then show ?thesis
          using scanned_step [OF k ed Cons.IH [of g1 None "if ct = [] then packageHash p else ct"]]
          by simp
      next
        case nc: False
        show ?thesis
        proof (cases "AddEdge (Graph g1) (packageHash c) (packageHash p) [(''target-origin'', dep)]")
          case ae: (Inr l)
          with nc
          have "scanResolved dep c lr (r # rs) g pkg ct = Inl (g1\<lparr>Graph := l\<rparr>, None, None)"
            by (simp only: step if_False sum.case)
          moreover have "keeps g (g1\<lparr>Graph := l\<rparr>)"
            using k keeps_Graph_update [OF ae] by (rule keeps_trans)
          moreover have "commits g (g1\<lparr>Graph := l\<rparr>) (packageHash c) (packageHash p)"
            using AddEdge_edgeRel [OF ae] edgeRel_edges [OF ed] by (simp add: commits_def)
          ultimately show ?thesis by (auto simp: scanned_def)
        next
          case ae: (Inl e)
          show ?thesis
          proof (cases "errorsIs e ErrEdgeAlreadyExists")
            case True
            with nc ae
            have "scanResolved dep c lr (r # rs) g pkg ct = Inl (g1, None, None)"
              by (simp only: step if_False if_True sum.case)
            moreover have "commits g g1 (packageHash c) (packageHash p)"
              using AddEdge_exists [OF ae True] edgeRel_edges [OF ed]
              by (auto simp: commits_def)
            ultimately show ?thesis using k by (auto simp: scanned_def)
          next
            case False
            with nc ae
            have "scanResolved dep c lr (r # rs) g pkg ct =
                Inl (g1, None, Some (Wrap ''add edge dependency error'' e))"
              by (simp only: step if_False sum.case)
            then show ?thesis using k ed by (simp add: scanned_def)
          qed
        qed
      qed
    qed
  qed
qed

text \<open>The outcome of \<^verbatim>\<open>addAppropriatePackage\<close>: an edge is committed only when the call
  returns neither an error nor a pending cycle.\<close>

lemma addAppropriatePackage_props:
  assumes "addAppropriatePackage resolver g c dep lr = (g', cyc, err)"
  shows "keeps g g'"
    and "err \<noteq> None \<or> cyc \<noteq> None \<Longrightarrow> edges (Graph g') = edges (Graph g)"
    and "err = None \<Longrightarrow> cyc = None \<Longrightarrow> \<exists>t. commits g g' (packageHash c) t"
    and "err \<noteq> None \<Longrightarrow> cyc = None"
    and "cyc \<noteq> None \<Longrightarrow> src (the cyc) = packageHash c"
proof -
  define unresolved where
    "unresolved = (case resolver dep of Inl e \<Rightarrow> True | Inr resolved \<Rightarrow> resolved = [])"
  define resolved where
    "resolved = (case resolver dep of Inl e \<Rightarrow> [] | Inr resolved \<Rightarrow> resolved)"
  note d = addAppropriatePackage_def [of resolver g c dep lr, folded unresolved_def resolved_def]
  have "keeps g g' \<and> (err \<noteq> None \<or> cyc \<noteq> None \<longrightarrow> edges (Graph g') = edges (Graph g))
      \<and> (err = None \<and> cyc = None \<longrightarrow> (\<exists>t. commits g g' (packageHash c) t))
      \<and> (err \<noteq> None \<longrightarrow> cyc = None) \<and> (cyc \<noteq> None \<longrightarrow> src (the cyc) = packageHash c)"
  proof (cases "unresolved \<and> allowUnresolved (opts g)")
    case True
    obtain g1 e1 where dp: "addDanglingPackage g dep c = (g1, e1)"
      by (cases "addDanglingPackage g dep c")
    from assms True dp have "g' = g1" "cyc = None" "err = None \<longleftrightarrow> e1 = None"
      by (auto simp: d Let_def split: option.splits)
    with addDanglingPackage_props [OF dp] show ?thesis by auto
  next
    case nd: False
    show ?thesis
    proof (cases unresolved)
      case True
      with nd assms have "g' = g" "cyc = None" "err \<noteq> None"
        by (auto simp: d Let_def)
      then show ?thesis by (auto simp: keeps_refl)
    next
      case False
      have sc: "scanned g c None (scanResolved dep c lr resolved g None [])"
        by (rule scanResolved_scanned)
      show ?thesis
      proof (cases "scanResolved dep c lr resolved g None []")
        case (Inl a)
        with assms nd False have "a = (g', cyc, err)" by (simp add: d Let_def)
        with sc Inl show ?thesis by (auto simp: scanned_def split: option.splits)
      next
        case (Inr b)
        obtain g1 pkg' ct' where b: "b = (g1, pkg', ct')" by (cases b)
        from sc Inr b have k: "keeps g g1" and ed: "edges (Graph g1) = edges (Graph g)"
            and p: "pkg' = None"
          by (simp_all add: scanned_def)
        show ?thesis
        proof (cases "ct' \<noteq> []")
          case True
          with assms nd False Inr b p
          have "g' = g1" "cyc = Some \<lparr>src = packageHash c, target = ct'\<rparr>" "err = None"
            by (simp_all add: d Let_def)
          with k ed show ?thesis by auto
        next
          case nct: False
          show ?thesis
          proof (cases "allowUnresolved (opts g1)")
            case False
            with assms nd \<open>\<not> unresolved\<close> Inr b p nct
            have "g' = g1" "cyc = None" "err \<noteq> None"
              by (auto simp: d Let_def)
            with k ed show ?thesis by auto
          next
            case True
            obtain g2 e2 where dp: "addDanglingPackage g1 dep c = (g2, e2)"
              by (cases "addDanglingPackage g1 dep c")
            from assms nd \<open>\<not> unresolved\<close> Inr b p nct True dp
            have r: "g' = g2" "cyc = None" "err = None \<longleftrightarrow> e2 = None"
              by (auto simp: d Let_def split: option.splits)
            note dpp = addDanglingPackage_props [OF dp]
            have "keeps g g2" using k dpp(1) by (rule keeps_trans)
            moreover have "e2 \<noteq> None \<Longrightarrow> edges (Graph g2) = edges (Graph g)"
              using dpp(2) ed by simp
            moreover have "e2 = None \<Longrightarrow>
                commits g g2 (packageHash c) (packageHash (DanglingPackage dep))"
              using dpp(3) edgeRel_edges [OF ed] by (simp add: commits_def)
            ultimately show ?thesis using r by auto
          qed
        qed
      qed
    qed
  qed
  then show "keeps g g'"
    and "err \<noteq> None \<or> cyc \<noteq> None \<Longrightarrow> edges (Graph g') = edges (Graph g)"
    and "err = None \<Longrightarrow> cyc = None \<Longrightarrow> \<exists>t. commits g g' (packageHash c) t"
    and "err \<noteq> None \<Longrightarrow> cyc = None"
    and "cyc \<noteq> None \<Longrightarrow> src (the cyc) = packageHash c"
    by blast+
qed

text \<open>The first half of \<^verbatim>\<open>resolveCycle\<close>, up to the removal of the culprit edge: the
  error returned, or the culprit edge, the dependency name it carries and the container
  without it.\<close>

definition culprit :: "shortestPath \<Rightarrow> Graph \<Rightarrow> cycle \<Rightarrow> error + (string \<times> string \<times> string \<times> lgraph)" where
  "culprit sp g c =
     (case sp (Graph g) (target c) (src c) of
        Inl err \<Rightarrow> Inl (Wrap ''unable to find shortest path'' err)
      | Inr path \<Rightarrow>
          if length path < 2 then Inl (Errorf ''there is no path'')
          else
            (case Edge (Graph g) (path ! (length path - 2)) (path ! (length path - 1)) of
               Inl err \<Rightarrow> Inl (Wrap ''unable to find last edge'' err)
             | Inr edge \<Rightarrow>
                 (case Attributes edge of
                    None \<Rightarrow> Inl (Errorf ''original edge has no attributes'')
                  | Some attributes \<Rightarrow>
                      (case RemoveEdge (Graph g) (path ! (length path - 2))
                              (path ! (length path - 1)) of
                         Inl err \<Rightarrow> Inl (Wrap ''unable to remove original edge'' err)
                       | Inr l1 \<Rightarrow>
                           Inr (path ! (length path - 2), path ! (length path - 1),
                                (case map_of attributes ''target-origin'' of
                                   None \<Rightarrow> []
                                 | Some d \<Rightarrow> d), l1)))))"

lemma resolveCycle_culprit:
  "resolveCycle sp resolver g c dep lr =
     (case culprit sp g c of
        Inl e \<Rightarrow> (g, Some e)
      | Inr (removeSrc, removeTarget, origDep, l1) \<Rightarrow>
          (case AddEdge l1 (src c) (target c) [(''target-origin'', dep)] of
             Inl err \<Rightarrow> (g\<lparr>Graph := l1\<rparr>, Some (Wrap ''unable to add replacement edge'' err))
           | Inr l2 \<Rightarrow>
               (case Vertex l2 removeSrc of
                  Inl err \<Rightarrow> (g\<lparr>Graph := l2\<rparr>, Some (Wrap ''unable to find original vertex'' err))
                | Inr config \<Rightarrow>
                    (case addAppropriatePackage resolver (g\<lparr>Graph := l2\<rparr>) config origDep lr of
                       (g3, cyc, Some err) \<Rightarrow>
                         (g3, Some (Wrap ''unable to re-add original edge'' err))
                     | (g3, Some cyc, None) \<Rightarrow>
                         (g3, Some (Errorf ''unable re-add original edge with new dep still causes cycle''))
                     | (g3, None, None) \<Rightarrow> (g3, None)))))"
  by (simp add: resolveCycle_def culprit_def Let_def split: sum.split option.split)

lemma culprit_Inr:
  assumes "culprit sp g c = Inr (removeSrc, removeTarget, origDep, l1)"
  shows "\<exists>path edge attributes.
     sp (Graph g) (target c) (src c) = Inr path \<and> 2 \<le> length path \<and>
     removeSrc = path ! (length path - 2) \<and> removeTarget = path ! (length path - 1) \<and>
     Edge (Graph g) removeSrc removeTarget = Inr edge \<and> Attributes edge = Some attributes \<and>
     origDep = (case map_of attributes ''target-origin'' of None \<Rightarrow> [] | Some d \<Rightarrow> d) \<and>
     RemoveEdge (Graph g) removeSrc removeTarget = Inr l1"
  using assms
  by (auto simp: culprit_def split: sum.splits option.splits if_splits)

lemma culprit_RemoveEdge:
  "culprit sp g c = Inr (removeSrc, removeTarget, origDep, l1) \<Longrightarrow>
     RemoveEdge (Graph g) removeSrc removeTarget = Inr l1"
  by (auto dest!: culprit_Inr)

lemma keeps_Graph_AddEdge:
  assumes "AddEdge l1 s t a = Inr l2"
  shows "keeps (g\<lparr>Graph := l1\<rparr>) (g\<lparr>Graph := l2\<rparr>)"
  using keeps_Graph_update [of "g\<lparr>Graph := l1\<rparr>" s t a l2] assms by simp

lemma resolveCycle_keeps:
  assumes "resolveCycle sp resolver g c dep lr = (g', err)"
  shows "keeps g g'"
proof (cases "culprit sp g c")
  case (Inl e)
  with assms have "g' = g" by (simp add: resolveCycle_culprit)
  then show ?thesis by (simp add: keeps_refl)
next
  case (Inr q)
  obtain rs rt od l1 where q: "q = (rs, rt, od, l1)" by (cases q)
  note cu = Inr [unfolded q]
  have k1: "keeps g (g\<lparr>Graph := l1\<rparr>)"
    using culprit_RemoveEdge [OF cu] by (rule keeps_RemoveEdge)
  show ?thesis
  proof (cases "AddEdge l1 (src c) (target c) [(''target-origin'', dep)]")
    case (Inl e)
    with assms cu have "g' = g\<lparr>Graph := l1\<rparr>" by (simp add: resolveCycle_culprit)
    with k1 show ?thesis by simp
  next
    case ae: (Inr l2)
    have k2: "keeps g (g\<lparr>Graph := l2\<rparr>)"
      using k1 keeps_Graph_AddEdge [OF ae] by (rule keeps_trans)
    show ?thesis
    proof (cases "Vertex l2 rs")
      case (Inl e)
      with assms cu ae have "g' = g\<lparr>Graph := l2\<rparr>" by (simp add: resolveCycle_culprit)
      with k2 show ?thesis by simp
    next
      case (Inr config)
      obtain g3 cyc e3 where ap: "addAppropriatePackage resolver (g\<lparr>Graph := l2\<rparr>) config od lr = (g3, cyc, e3)"
        by (cases "addAppropriatePackage resolver (g\<lparr>Graph := l2\<rparr>) config od lr")
      with assms cu ae Inr have "g' = g3"
        by (auto simp: resolveCycle_culprit split: option.splits)
      with k2 addAppropriatePackage_props(1) [OF ap] show ?thesis
        by (auto intro: keeps_trans)
    qed
  qed
qed


lemma addSubpackageVersions_keeps:
  "addSubpackageVersions c vs (g, errs) = (g', errs') \<Longrightarrow> keeps g g'"
proof (induction vs arbitrary: g errs)
  case Nil
  then show ?case by (simp add: keeps_refl)
next
  case (Cons v vs)
  show ?case
  proof (cases "fullVersion v = fullVersion c")
    case True
    with Cons show ?thesis by simp
  next
    case nv: False
    obtain g1 err where av: "addVertex g (OriginPackage v) = (g1, err)"
      by (cases "addVertex g (OriginPackage v)")
    note f = addVertex_failedOtherThan [OF av] and k = addVertex_keeps [OF av]
    show ?thesis
    proof (cases "AddEdge (Graph g1) (packageHash (OriginPackage v)) (packageHash (OriginPackage c)) []")
      case (Inl e)
      with Cons.prems nv av f obtain errs1 where
        "addSubpackageVersions c vs (g1, errs1) = (g', errs')"
        by (auto split: option.splits)
      then have "keeps g1 g'" by (rule Cons.IH)
      with k show ?thesis by (rule keeps_trans)
    next
      case (Inr l)
      with Cons.prems nv av f have "addSubpackageVersions c vs (g1\<lparr>Graph := l\<rparr>, errs) = (g', errs')"
        by simp
      then have "keeps (g1\<lparr>Graph := l\<rparr>) g'" by (rule Cons.IH)
      with keeps_trans [OF k keeps_Graph_update [OF Inr]] show ?thesis by (rule keeps_trans)
    qed
  qed
qed

lemma addSubpackages_keeps:
  "addSubpackages pkgs c names (g, errs) = (g', errs') \<Longrightarrow> keeps g g'"
proof (induction names arbitrary: g errs)
  case Nil
  then show ?case by (simp add: keeps_refl)
next
  case (Cons n names)
  obtain g1 errs1 where a: "addSubpackageVersions c (Config pkgs n) (g, errs) = (g1, errs1)"
    by (cases "addSubpackageVersions c (Config pkgs n) (g, errs)")
  with Cons.prems have "addSubpackages pkgs c names (g1, errs1) = (g', errs')" by simp
  then have "keeps g1 g'" by (rule Cons.IH)
  with addSubpackageVersions_keeps [OF a] show ?case by (rule keeps_trans)
qed

lemma addBuildDeps_keeps:
  "addBuildDeps sp resolver c lr deps (g, errs) = (g', errs') \<Longrightarrow> keeps g g'"
proof (induction deps arbitrary: g errs)
  case Nil
  then show ?case by (simp add: keeps_refl)
next
  case (Cons d deps)
  show ?case
  proof (cases "d = []")
    case True
    with Cons show ?thesis by simp
  next
    case ne: False
    obtain g1 cyc e1 where ap: "addAppropriatePackage resolver g (OriginPackage c) d lr = (g1, cyc, e1)"
      by (cases "addAppropriatePackage resolver g (OriginPackage c) d lr")
    note k1 = addAppropriatePackage_props(1) [OF ap]
    show ?thesis
    proof (cases "e1 = None \<and> cyc \<noteq> None")
      case False
      with Cons.prems ne ap obtain errs1 where "addBuildDeps sp resolver c lr deps (g1, errs1) = (g', errs')"
        by (auto split: option.splits)
      then have "keeps g1 g'" by (rule Cons.IH)
      with k1 show ?thesis by (rule keeps_trans)
    next
      case True
      then obtain cy where cy: "cyc = Some cy" "e1 = None" by auto
      obtain g2 e2 where rc: "resolveCycle sp resolver g1 cy d lr = (g2, e2)"
        by (cases "resolveCycle sp resolver g1 cy d lr")
      with Cons.prems ne ap cy obtain errs1 where "addBuildDeps sp resolver c lr deps (g2, errs1) = (g', errs')"
        by (auto split: option.splits)
      then have "keeps g2 g'" by (rule Cons.IH)
      with keeps_trans [OF k1 resolveCycle_keeps [OF rc]] show ?thesis by (rule keeps_trans)
    qed
  qed
qed

lemma addPackage_keeps:
  assumes "addPackage w pkgs gopts c (g, indexes, errs) = Inr (g', indexes', errs')"
  shows "keeps g g'"
proof -
  obtain g1 err where av: "addVertex g (OriginPackage c) = (g1, err)"
    by (cases "addVertex g (OriginPackage c)")
  note f = addVertex_failedOtherThan [OF av] and k = addVertex_keeps [OF av]
  obtain g2 errs2 where sb: "addSubpackages pkgs c (Subpackages c) (g1, errs) = (g2, errs2)"
    by (cases "addSubpackages pkgs c (Subpackages c) (g1, errs)")
  note k2 = keeps_trans [OF k addSubpackages_keeps [OF sb]]
  from assms av f sb obtain sp resolver lr where
    "addBuildDeps sp resolver c lr (EnvPackages c) (g2, errs2) = (g', errs')"
    by (auto simp: addPackage_def Let_def split: prod.splits sum.splits if_splits)
  then have "keeps g2 g'" by (rule addBuildDeps_keeps)
  with k2 show ?thesis by (rule keeps_trans)
qed

lemma buildLoop_keeps:
  "buildLoop w pkgs gopts cs (g, indexes, errs) = Inr (g', indexes', errs') \<Longrightarrow> keeps g g'"
proof (induction cs arbitrary: g indexes errs)
  case Nil
  then show ?case by (simp add: keeps_refl)
next
  case (Cons c cs)
  from Cons.prems obtain g1 ix1 errs1 where
    a: "addPackage w pkgs gopts c (g, indexes, errs) = Inr (g1, ix1, errs1)"
    and b: "buildLoop w pkgs gopts cs (g1, ix1, errs1) = Inr (g', indexes', errs')"
    by (auto split: sum.splits)
  from addPackage_keeps [OF a] Cons.IH [OF b] show ?case by (rule keeps_trans)
qed

lemma NewGraph_ok:
  assumes "NewGraph w pkgs options = Inr g"
  shows "lgraph_ok (Graph g)"
proof -
  from assms obtain gopts indexes errs where
    "buildLoop w pkgs gopts (Packages pkgs)
       (\<lparr>Graph = newGraph, packages = pkgs, opts = gopts, byName = (\<lambda>name. [])\<rparr>, Map.empty, [])
     = Inr (g, indexes, errs)"
    by (auto simp: NewGraph_def Let_def split: sum.splits if_splits)
  from buildLoop_keeps [OF this] lgraph_ok_newGraph show ?thesis
    by (simp add: keeps_def)
qed

section \<open>Acyclicity of a constructed graph\<close>

text \<open>
  C1. In a graph returned by \<^verbatim>\<open>NewGraph\<close> no vertex is reachable from itself along the
  edges. Every edge of the construction, the replacement edge of \<^verbatim>\<open>resolveCycle\<close>
  included, goes through \<^verbatim>\<open>AddEdge\<close> of a container built with \<^verbatim>\<open>PreventCycles\<close>,
  which commits an edge only when its search finds no path from the target back to the
  source; removing the culprit edge cannot create a cycle.
\<close>

theorem NewGraph_acyclic:
  assumes "NewGraph w pkgs options = Inr g"
  shows "(v, v) \<notin> (edgeRel (Graph g))\<^sup>+"
  using NewGraph_ok [OF assms] by (simp add: lgraph_ok_def acyclic_def)

lemmas example_defs =
  NewGraph_def addPackage_def addAppropriatePackage_def resolveCycle_def addDanglingPackage_def
  addVertex_def AddVertex_def AddEdge_def RemoveEdge_def CreatesCycle_def Vertex_def Edge_def
  failedOtherThan_def hashes_def edgePairs_def predecessors_def newGraph_def packageHash_def
  Local_def getKeyMaterial_def Let_def searchShortest_def emptyGraph_def strict_def mkConfig_def
  world_def tableResolver_def twoPackages_def pkgA_def pkgB_def searchTarget.simps
  scanResolved.simps(2)

text \<open>
  The two packages \<open>a\<close> and \<open>b\<close> need each other. The second dependency is a pending
  cycle; the rotation removes the edge from \<open>a\<close> to the local \<open>b\<close>, commits the edge from
  \<open>b\<close> to \<open>a\<close> and resolves the dependency of \<open>a\<close> again, to the upstream \<open>b\<close>.
\<close>

theorem NewGraph_acyclic_witness:
  "NewGraph world twoPackages [] = Inr (projr (NewGraph world twoPackages []))
   \<and> edgePairs (Graph (projr (NewGraph world twoPackages []))) =
       [(''b:1-r0@local'', ''a:1-r0@local''), (''a:1-r0@local'', ''b:0.9-r0@https://up'')]
   \<and> (''a:1-r0@local'', ''a:1-r0@local'') \<notin> (edgeRel (Graph (projr (NewGraph world twoPackages []))))\<^sup>+"
proof -
  have "\<not> isl (NewGraph world twoPackages [])"
    by (simp add: example_defs)
  then have r: "NewGraph world twoPackages [] = Inr (projr (NewGraph world twoPackages []))"
    by simp
  have e: "edgePairs (Graph (projr (NewGraph world twoPackages []))) =
       [(''b:1-r0@local'', ''a:1-r0@local''), (''a:1-r0@local'', ''b:0.9-r0@https://up'')]"
    by (simp add: example_defs)
  from r e NewGraph_acyclic [OF r, of "''a:1-r0@local''"] show ?thesis by blast
qed

section \<open>Which candidates the scan skips\<close>

text \<open>The graph a run of the candidate loop ends with.\<close>

definition outcomeGraph ::
  "(Graph \<times> cycle option \<times> error option) + (Graph \<times> package option \<times> string) \<Rightarrow> Graph" where
  "outcomeGraph res = (case res of Inl (g', cyc, err) \<Rightarrow> g' | Inr (g', pkg', ct') \<Rightarrow> g')"




lemma lgraph_ok_no_loop: "lgraph_ok l \<Longrightarrow> (h, h) \<notin> edgeRel l"
  by (auto simp: lgraph_ok_def acyclic_def)








text \<open>The graph that holds the origin package \<open>a\<close> alone.\<close>

definition graphA :: Graph where
  "graphA = fst (addVertex (emptyGraph twoPackages strict) (OriginPackage pkgA))"

definition localA :: candidate where
  "localA = \<lparr>candName = ''a'', candVersion = ''1-r0'', IndexUri = ''local-index'', Uri = ''local''\<rparr>"

definition providerA :: candidate where
  "providerA = \<lparr>candName = ''a-compat'', candVersion = ''1-r0'', IndexUri = ''https://up/index'',
                Uri = ''https://up''\<rparr>"

definition olderA :: candidate where
  "olderA = \<lparr>candName = ''a'', candVersion = ''0.9-r0'', IndexUri = ''https://up/index'',
             Uri = ''https://up''\<rparr>"

lemmas example_defs2 = example_defs graphA_def localA_def providerA_def olderA_def
  candidatePackage_def outcomeGraph_def



section \<open>Filter\<close>

lemma Vertex_Inr_iff: "(\<exists>p. Vertex l h = Inr p) \<longleftrightarrow> h \<in> set (hashes l)"
proof (cases "map_of (vertices l) h")
  case None
  moreover from None have "h \<notin> fst ` set (vertices l)"
    by (simp add: map_of_eq_None_iff)
  ultimately show ?thesis by (simp add: Vertex_def hashes_def)
next
  case (Some p)
  then have "h \<in> fst ` set (vertices l)"
    using map_of_eq_None_iff [of "vertices l" h] by simp
  with Some show ?thesis by (simp add: Vertex_def hashes_def)
qed

lemma Vertex_member:
  "distinct (map fst (vertices l)) \<Longrightarrow> (h, p) \<in> set (vertices l) \<Longrightarrow> Vertex l h = Inr p"
  by (simp add: Vertex_def)

lemma filterVertices_filter:
  assumes "distinct (map fst (vertices l))" and "\<forall>(h, p) \<in> set (vertices l). h = packageHash p"
      and "set vs \<subseteq> set (vertices l)" and "distinct (map fst vs)"
      and "set (hashes (Graph sub)) \<inter> fst ` set vs = {}"
  shows "\<exists>sub'. filterVertices l keep (map fst vs) sub = Inr sub'
           \<and> vertices (Graph sub') = vertices (Graph sub) @ filter (\<lambda>(h, p). keep p) vs
           \<and> edges (Graph sub') = edges (Graph sub)"
  using assms(3-5)
proof (induction vs arbitrary: sub)
  case Nil
  then show ?case by simp
next
  case (Cons x vs)
  obtain h p where x: "x = (h, p)" by (cases x)
  from Cons.prems(1) x have mem: "(h, p) \<in> set (vertices l)" by simp
  then have v: "Vertex l h = Inr p" using assms(1) by (simp add: Vertex_member)
  from mem assms(2) have hp: "h = packageHash p" by auto
  show ?case
  proof (cases "keep p")
    case False
    from Cons.prems have "\<exists>sub'. filterVertices l keep (map fst vs) sub = Inr sub'
           \<and> vertices (Graph sub') = vertices (Graph sub) @ filter (\<lambda>(h, p). keep p) vs
           \<and> edges (Graph sub') = edges (Graph sub)"
      by (intro Cons.IH) auto
    with False v x show ?thesis by simp
  next
    case True
    from Cons.prems(3) x hp have fresh: "packageHash p \<notin> set (hashes (Graph sub))" by auto
    define sub1 where "sub1 = fst (addVertex sub p)"
    from fresh have av: "addVertex sub p = (sub1, None)"
      and v1: "vertices (Graph sub1) = vertices (Graph sub) @ [(h, p)]"
      and e1: "edges (Graph sub1) = edges (Graph sub)"
      by (simp_all add: sub1_def addVertex_def AddVertex_def hp)
    from Cons.prems x v1 have "set (hashes (Graph sub1)) \<inter> fst ` set vs = {}"
      by (auto simp: hashes_def)
    with Cons.prems have "\<exists>sub'. filterVertices l keep (map fst vs) sub1 = Inr sub'
           \<and> vertices (Graph sub') = vertices (Graph sub1) @ filter (\<lambda>(h, p). keep p) vs
           \<and> edges (Graph sub') = edges (Graph sub1)"
      by (intro Cons.IH) auto
    with True v x av v1 e1 show ?thesis by (simp add: failedOtherThan_def)
  qed
qed

lemma filterDeps_edges:
  assumes "acyclic (edgeRel l)"
      and "\<forall>e \<in> set deps. (edgeSource e, edgeTarget e) \<in> edgeRel l
             \<and> edgeSource e \<in> set (hashes (Graph sub))"
      and "edgeRel (Graph sub) \<subseteq> edgeRel l"
      and "distinct (edgePairs (Graph sub))"
  shows "\<exists>sub'. filterDeps deps sub = Inr sub'
           \<and> vertices (Graph sub') = vertices (Graph sub)
           \<and> distinct (edgePairs (Graph sub'))
           \<and> edgeRel (Graph sub') = edgeRel (Graph sub) \<union>
                {(edgeSource e, edgeTarget e) | e. e \<in> set deps \<and> edgeTarget e \<in> set (hashes (Graph sub))}"
  using assms(2-4)
proof (induction deps arbitrary: sub)
  case Nil
  then show ?case by simp
next
  case (Cons e deps)
  let ?s = "edgeSource e" and ?t = "edgeTarget e"
  from Cons.prems have el: "(?s, ?t) \<in> edgeRel l" and sh: "?s \<in> set (hashes (Graph sub))"
    by auto
  show ?case
  proof (cases "?t \<in> set (hashes (Graph sub))")
    case False
    then have "Vertex (Graph sub) ?t = Inl ErrVertexNotFound"
      using Vertex_Inr_iff [of "Graph sub" ?t] by (auto simp: Vertex_def split: option.splits)
    moreover from Cons.prems have "\<exists>sub'. filterDeps deps sub = Inr sub'
           \<and> vertices (Graph sub') = vertices (Graph sub)
           \<and> distinct (edgePairs (Graph sub'))
           \<and> edgeRel (Graph sub') = edgeRel (Graph sub) \<union>
                {(edgeSource e, edgeTarget e) | e. e \<in> set deps \<and> edgeTarget e \<in> set (hashes (Graph sub))}"
      by (intro Cons.IH) auto
    ultimately show ?thesis using False by auto
  next
    case th: True
    then obtain q where vq: "Vertex (Graph sub) ?t = Inr q"
      using Vertex_Inr_iff [of "Graph sub" ?t] by auto
    show ?thesis
    proof (cases "(?s, ?t) \<in> edgeRel (Graph sub)")
      case True
      then have ae: "AddEdge (Graph sub) ?s ?t [] = Inl ErrEdgeAlreadyExists"
        using sh th by (simp add: AddEdge_def edgeRel_def)
      from Cons.prems have "\<exists>sub'. filterDeps deps sub = Inr sub'
           \<and> vertices (Graph sub') = vertices (Graph sub)
           \<and> distinct (edgePairs (Graph sub'))
           \<and> edgeRel (Graph sub') = edgeRel (Graph sub) \<union>
                {(edgeSource e, edgeTarget e) | e. e \<in> set deps \<and> edgeTarget e \<in> set (hashes (Graph sub))}"
        by (intro Cons.IH) auto
      with vq ae True th show ?thesis by (auto simp: failedOtherThan_def)
    next
      case False
      have "(?t, ?s) \<notin> (edgeRel l)\<^sup>*"
      proof
        assume "(?t, ?s) \<in> (edgeRel l)\<^sup>*"
        with el have "(?s, ?s) \<in> (edgeRel l)\<^sup>+" by (rule rtrancl_into_trancl2)
        with assms(1) show False by (simp add: acyclic_def)
      qed
      with Cons.prems(2) have "(?t, ?s) \<notin> (edgeRel (Graph sub))\<^sup>*"
        using rtrancl_mono by blast
      with False sh th obtain l1 where ae: "AddEdge (Graph sub) ?s ?t [] = Inr l1"
        by (simp add: AddEdge_Inr)
      define sub1 where "sub1 = sub\<lparr>Graph := l1\<rparr>"
      have v1: "vertices (Graph sub1) = vertices (Graph sub)"
        using AddEdge_vertices [OF ae] by (simp add: sub1_def)
      then have h1: "hashes (Graph sub1) = hashes (Graph sub)" by (simp add: hashes_def)
      have r1: "edgeRel (Graph sub1) = insert (?s, ?t) (edgeRel (Graph sub))"
        using AddEdge_edgeRel [OF ae] by (simp add: sub1_def)
      have d1: "distinct (edgePairs (Graph sub1))"
        using ae False Cons.prems(3) by (simp add: AddEdge_Inr sub1_def edgePairs_def edgeRel_def)
      from Cons.prems el r1 h1 d1 have "\<exists>sub'. filterDeps deps sub1 = Inr sub'
           \<and> vertices (Graph sub') = vertices (Graph sub1)
           \<and> distinct (edgePairs (Graph sub'))
           \<and> edgeRel (Graph sub') = edgeRel (Graph sub1) \<union>
                {(edgeSource e, edgeTarget e) | e. e \<in> set deps \<and> edgeTarget e \<in> set (hashes (Graph sub1))}"
        by (intro Cons.IH) auto
      with vq ae th v1 h1 r1 show ?thesis by (auto simp: sub1_def)
    qed
  qed
qed


text \<open>The edges of an adjacency map with both ends in \<open>H\<close>.\<close>

definition entryEdges :: "string set \<Rightarrow> string \<times> edge list \<Rightarrow> (string \<times> string) set" where
  "entryEdges H entry =
     {(edgeSource e, edgeTarget e) | e. e \<in> set (snd entry) \<and> edgeSource e \<in> H \<and> edgeTarget e \<in> H}"

lemma filterEdges_edges:
  assumes "acyclic (edgeRel l)"
      and "\<forall>(node, deps) \<in> set am. \<forall>e \<in> set deps.
             edgeSource e = node \<and> (edgeSource e, edgeTarget e) \<in> edgeRel l"
      and "edgeRel (Graph sub) \<subseteq> edgeRel l"
      and "distinct (edgePairs (Graph sub))"
  shows "\<exists>sub'. filterEdges am sub = Inr sub'
           \<and> vertices (Graph sub') = vertices (Graph sub)
           \<and> distinct (edgePairs (Graph sub'))
           \<and> edgeRel (Graph sub') = edgeRel (Graph sub) \<union>
                (\<Union>entry \<in> set am. entryEdges (set (hashes (Graph sub))) entry)"
  using assms(2-4)
proof (induction am arbitrary: sub)
  case Nil
  then show ?case by simp
next
  case (Cons x am)
  obtain node deps where x: "x = (node, deps)" by (cases x)
  from Cons.prems(1) x have dl: "\<forall>e \<in> set deps. edgeSource e = node \<and> (edgeSource e, edgeTarget e) \<in> edgeRel l"
    by auto
  from Cons.prems(1) have rest: "\<forall>(node, deps) \<in> set am. \<forall>e \<in> set deps.
             edgeSource e = node \<and> (edgeSource e, edgeTarget e) \<in> edgeRel l"
    by auto
  let ?H = "set (hashes (Graph sub))"
  show ?case
  proof (cases "node \<in> ?H")
    case False
    then have vn: "Vertex (Graph sub) node = Inl ErrVertexNotFound"
      using Vertex_Inr_iff [of "Graph sub" node] by (auto simp: Vertex_def split: option.splits)
    from rest Cons.prems(2,3) have "\<exists>sub'. filterEdges am sub = Inr sub'
           \<and> vertices (Graph sub') = vertices (Graph sub)
           \<and> distinct (edgePairs (Graph sub'))
           \<and> edgeRel (Graph sub') = edgeRel (Graph sub) \<union>
                (\<Union>entry \<in> set am. entryEdges ?H entry)"
      by (rule Cons.IH)
    then obtain sub' where r: "filterEdges am sub = Inr sub'"
        "vertices (Graph sub') = vertices (Graph sub)"
        "edgeRel (Graph sub') = edgeRel (Graph sub) \<union> (\<Union>entry \<in> set am. entryEdges ?H entry)"
        "distinct (edgePairs (Graph sub'))"
      by blast
    have "filterEdges (x # am) sub = Inr sub'" using vn r(1) x by simp
    moreover have "entryEdges ?H x = {}"
      using False dl x by (auto simp: entryEdges_def)
    ultimately show ?thesis using r(2,3,4) by simp
  next
    case True
    then obtain q where vn: "Vertex (Graph sub) node = Inr q"
      using Vertex_Inr_iff [of "Graph sub" node] by auto
    from dl True have "\<forall>e \<in> set deps. (edgeSource e, edgeTarget e) \<in> edgeRel l
             \<and> edgeSource e \<in> ?H"
      by auto
    from filterDeps_edges [OF assms(1) this Cons.prems(2,3)]
    obtain sub1 where d: "filterDeps deps sub = Inr sub1"
        "vertices (Graph sub1) = vertices (Graph sub)"
        "edgeRel (Graph sub1) = edgeRel (Graph sub) \<union>
           {(edgeSource e, edgeTarget e) | e. e \<in> set deps \<and> edgeTarget e \<in> ?H}"
        "distinct (edgePairs (Graph sub1))"
      by blast
    have ee: "{(edgeSource e, edgeTarget e) | e. e \<in> set deps \<and> edgeTarget e \<in> ?H} = entryEdges ?H x"
      using True dl x by (auto simp: entryEdges_def)
    from d(2) have h1: "hashes (Graph sub1) = hashes (Graph sub)" by (simp add: hashes_def)
    from d(3) dl Cons.prems(2) have sb: "edgeRel (Graph sub1) \<subseteq> edgeRel l" by auto
    from rest sb d(4) have "\<exists>sub'. filterEdges am sub1 = Inr sub'
           \<and> vertices (Graph sub') = vertices (Graph sub1)
           \<and> distinct (edgePairs (Graph sub'))
           \<and> edgeRel (Graph sub') = edgeRel (Graph sub1) \<union>
                (\<Union>entry \<in> set am. entryEdges (set (hashes (Graph sub1))) entry)"
      by (rule Cons.IH)
    then obtain sub' where r: "filterEdges am sub1 = Inr sub'"
        "vertices (Graph sub') = vertices (Graph sub1)"
        "edgeRel (Graph sub') = edgeRel (Graph sub1) \<union>
                (\<Union>entry \<in> set am. entryEdges (set (hashes (Graph sub1))) entry)"
        "distinct (edgePairs (Graph sub'))"
      by blast
    have "filterEdges (x # am) sub = Inr sub'" using vn d(1) r(1) x by simp
    moreover have "edgeRel (Graph sub') = edgeRel (Graph sub) \<union>
                (\<Union>entry \<in> set (x # am). entryEdges ?H entry)"
      unfolding r(3) d(3) h1 ee by auto
    ultimately show ?thesis using r(2,4) d(2) by auto
  qed
qed

lemma AdjacencyMap_entries:
  "\<forall>(node, deps) \<in> set (AdjacencyMap l). \<forall>e \<in> set deps.
     edgeSource e = node \<and> (edgeSource e, edgeTarget e) \<in> edgeRel l"
  by (auto simp: AdjacencyMap_def edgeRel_def edgePairs_def)

lemma AdjacencyMap_covers:
  assumes "(s, t) \<in> edgeRel l" and "s \<in> set (hashes l)"
  shows "\<exists>node deps e. (node, deps) \<in> set (AdjacencyMap l) \<and> e \<in> set deps
           \<and> edgeSource e = s \<and> edgeTarget e = t"
proof -
  from assms(1) obtain e where e: "e \<in> set (edges l)" "edgeSource e = s" "edgeTarget e = t"
    by (auto simp: edgeRel_def edgePairs_def)
  let ?deps = "filter (\<lambda>e. edgeSource e = s) (edges l)"
  from assms(2) have "(s, ?deps) \<in> set (AdjacencyMap l)"
    by (auto simp: AdjacencyMap_def)
  moreover from e have "e \<in> set ?deps" by simp
  ultimately show ?thesis using e by blast
qed

lemma AdjacencyMap_keys: "map fst (AdjacencyMap l) = map fst (vertices l)"
  by (simp add: AdjacencyMap_def hashes_def comp_def)

text \<open>The vertices of \<open>g\<close> that pass the filter.\<close>

definition kept :: "Graph \<Rightarrow> (package \<Rightarrow> bool) \<Rightarrow> string \<Rightarrow> bool" where
  "kept g keep h = (case Vertex (Graph g) h of Inl err \<Rightarrow> False | Inr p \<Rightarrow> keep p)"

text \<open>
  C3. On a graph that satisfies the invariant of the container (as every graph built by
  \<^verbatim>\<open>NewGraph\<close> does), \<^verbatim>\<open>Filter\<close> returns a graph; its vertices are the vertices of \<open>g\<close>
  that pass the filter, and it has an edge from \<open>u\<close> to \<open>v\<close> exactly when \<open>g\<close> has it
  and both \<open>u\<close> and \<open>v\<close> pass the filter.
\<close>

theorem Filter_keeps_edges:
  assumes "lgraph_ok (Graph g)"
  shows "\<exists>sub. Filter g keep = Inr sub
           \<and> lgraph_ok (Graph sub)
           \<and> vertices (Graph sub) = filter (\<lambda>(h, p). keep p) (vertices (Graph g))
           \<and> (\<forall>u v. (u, v) \<in> edgeRel (Graph sub) \<longleftrightarrow>
                 (u, v) \<in> edgeRel (Graph g) \<and> kept g keep u \<and> kept g keep v)"
proof -
  let ?l = "Graph g"
  let ?sub0 = "\<lparr>Graph = newGraph, packages = packages g, opts = opts g, byName = (\<lambda>name. [])\<rparr>"
  from assms have dv: "distinct (map fst (vertices ?l))"
      and hk: "\<forall>(h, p) \<in> set (vertices ?l). h = packageHash p"
      and ends: "\<forall>(s, t) \<in> set (edgePairs ?l). s \<in> set (hashes ?l) \<and> t \<in> set (hashes ?l)"
      and ac: "acyclic (edgeRel ?l)"
    by (simp_all add: lgraph_ok_def hashes_def)
  have "\<exists>sub'. filterVertices ?l keep (map fst (vertices ?l)) ?sub0 = Inr sub'
           \<and> vertices (Graph sub') = vertices (Graph ?sub0) @ filter (\<lambda>(h, p). keep p) (vertices ?l)
           \<and> edges (Graph sub') = edges (Graph ?sub0)"
    using dv hk by (intro filterVertices_filter) (simp_all add: newGraph_def hashes_def)
  then obtain sub1 where p1: "filterVertices ?l keep (map fst (vertices ?l)) ?sub0 = Inr sub1"
      and v1: "vertices (Graph sub1) = filter (\<lambda>(h, p). keep p) (vertices ?l)"
      and e1: "edges (Graph sub1) = []"
    by (auto simp: newGraph_def)
  from e1 have r1: "edgeRel (Graph sub1) = {}" by (simp add: edgeRel_def edgePairs_def)
  have "\<exists>sub'. filterEdges (AdjacencyMap ?l) sub1 = Inr sub'
           \<and> vertices (Graph sub') = vertices (Graph sub1)
           \<and> distinct (edgePairs (Graph sub'))
           \<and> edgeRel (Graph sub') = edgeRel (Graph sub1) \<union>
                (\<Union>entry \<in> set (AdjacencyMap ?l). entryEdges (set (hashes (Graph sub1))) entry)"
    using ac AdjacencyMap_entries by (rule filterEdges_edges) (simp_all add: r1 e1 edgePairs_def)
  then obtain sub where p2: "filterEdges (AdjacencyMap ?l) sub1 = Inr sub"
      and v2: "vertices (Graph sub) = vertices (Graph sub1)"
      and d2: "distinct (edgePairs (Graph sub))"
      and r2: "edgeRel (Graph sub) =
                (\<Union>entry \<in> set (AdjacencyMap ?l). entryEdges (set (hashes (Graph sub1))) entry)"
    using r1 by auto
  have kept_iff: "kept g keep h \<longleftrightarrow> h \<in> set (hashes (Graph sub1))" for h
  proof
    assume "kept g keep h"
    then obtain p where vp: "Vertex ?l h = Inr p" and kp: "keep p"
      by (auto simp: kept_def split: sum.splits)
    then have "(h, p) \<in> set (vertices ?l)"
      by (auto simp: Vertex_def split: option.splits dest: map_of_SomeD)
    with kp show "h \<in> set (hashes (Graph sub1))"
      by (force simp: hashes_def v1)
  next
    assume "h \<in> set (hashes (Graph sub1))"
    then obtain p where "(h, p) \<in> set (vertices ?l)" and kp: "keep p"
      by (auto simp: hashes_def v1)
    then have "Vertex ?l h = Inr p" using dv by (simp add: Vertex_member)
    with kp show "kept g keep h" by (simp add: kept_def)
  qed
  have iff: "(u, v) \<in> edgeRel (Graph sub) \<longleftrightarrow>
          (u, v) \<in> edgeRel ?l \<and> kept g keep u \<and> kept g keep v" for u v
  proof
    assume "(u, v) \<in> edgeRel (Graph sub)"
    then show "(u, v) \<in> edgeRel ?l \<and> kept g keep u \<and> kept g keep v"
      unfolding r2 kept_iff using AdjacencyMap_entries [of ?l]
      by (fastforce simp: entryEdges_def)
  next
    assume a: "(u, v) \<in> edgeRel ?l \<and> kept g keep u \<and> kept g keep v"
    with ends have "u \<in> set (hashes ?l)" by (auto simp: edgeRel_def)
    with a obtain node deps e where "(node, deps) \<in> set (AdjacencyMap ?l)" "e \<in> set deps"
        "edgeSource e = u" "edgeTarget e = v"
      using AdjacencyMap_covers by blast
    with a show "(u, v) \<in> edgeRel (Graph sub)"
      unfolding r2 kept_iff by (force simp: entryEdges_def)
  qed
  have "acyclic (edgeRel (Graph sub))"
    using ac iff by (auto intro: acyclic_subset)
  moreover have "distinct (hashes (Graph sub))"
    using dv by (simp add: hashes_def v1 v2 distinct_map_filter)
  moreover have "\<forall>(h, p) \<in> set (vertices (Graph sub)). h = packageHash p"
    using hk by (auto simp: v1 v2)
  moreover have "\<forall>(s, t) \<in> set (edgePairs (Graph sub)).
      s \<in> set (hashes (Graph sub)) \<and> t \<in> set (hashes (Graph sub))"
    using iff kept_iff v2 by (auto simp: edgeRel_def hashes_def)
  ultimately have "lgraph_ok (Graph sub)" using d2 by (simp add: lgraph_ok_def)
  moreover have "Filter g keep = Inr sub"
    using p1 p2 by (simp add: Filter_def Let_def AdjacencyMap_keys)
  ultimately show ?thesis using v1 v2 iff by auto
qed


text \<open>
  The graph built from the packages \<open>a\<close> and \<open>b\<close> has the edges from \<open>b\<close> to \<open>a\<close> and from
  \<open>a\<close> to the upstream \<open>b\<close>; the local filter keeps the first and drops the second.
\<close>

theorem Filter_keeps_edges_witness:
  "lgraph_ok (Graph (projr (NewGraph world twoPackages [])))
   \<and> Filter (projr (NewGraph world twoPackages [])) FilterLocal
       = Inr (projr (Filter (projr (NewGraph world twoPackages [])) FilterLocal))
   \<and> lgraph_ok (Graph (projr (Filter (projr (NewGraph world twoPackages [])) FilterLocal)))
   \<and> hashes (Graph (projr (Filter (projr (NewGraph world twoPackages [])) FilterLocal)))
       = [''a:1-r0@local'', ''b:1-r0@local'']
   \<and> (''b:1-r0@local'', ''a:1-r0@local'')
       \<in> edgeRel (Graph (projr (Filter (projr (NewGraph world twoPackages [])) FilterLocal)))
   \<and> (''a:1-r0@local'', ''b:0.9-r0@https://up'')
       \<notin> edgeRel (Graph (projr (Filter (projr (NewGraph world twoPackages [])) FilterLocal)))"
proof -
  let ?g = "projr (NewGraph world twoPackages [])"
  have "\<not> isl (NewGraph world twoPackages [])"
    by (simp add: example_defs)
  then have "NewGraph world twoPackages [] = Inr ?g" by simp
  then have ok: "lgraph_ok (Graph ?g)" by (rule NewGraph_ok)
  have vs: "vertices (Graph ?g) =
      [(''a:1-r0@local'', OriginPackage pkgA), (''b:1-r0@local'', OriginPackage pkgB),
       (''b:0.9-r0@https://up'', ExternalPackage ''b'' ''0.9-r0'' ''https://up'')]"
    by (simp add: example_defs)
  have es: "edgeRel (Graph ?g) =
      {(''b:1-r0@local'', ''a:1-r0@local''), (''a:1-r0@local'', ''b:0.9-r0@https://up'')}"
    by (simp add: example_defs edgeRel_def)
  have k: "kept ?g FilterLocal ''a:1-r0@local''" "kept ?g FilterLocal ''b:1-r0@local''"
      "\<not> kept ?g FilterLocal ''b:0.9-r0@https://up''"
    by (simp_all add: kept_def Vertex_def vs FilterLocal_def Local_def)
  from Filter_keeps_edges [OF ok, of FilterLocal] obtain sub where
      f: "Filter ?g FilterLocal = Inr sub"
      and oks: "lgraph_ok (Graph sub)"
      and v: "vertices (Graph sub) = filter (\<lambda>(h, p). FilterLocal p) (vertices (Graph ?g))"
      and e: "\<And>u v. (u, v) \<in> edgeRel (Graph sub) \<longleftrightarrow>
                 (u, v) \<in> edgeRel (Graph ?g) \<and> kept ?g FilterLocal u \<and> kept ?g FilterLocal v"
    by blast
  from f have p: "projr (Filter ?g FilterLocal) = sub" by simp
  from v have "hashes (Graph sub) = [''a:1-r0@local'', ''b:1-r0@local'']"
    by (simp add: hashes_def vs FilterLocal_def Local_def)
  moreover from e es k have "(''b:1-r0@local'', ''a:1-r0@local'') \<in> edgeRel (Graph sub)"
    by simp
  moreover from e k have "(''a:1-r0@local'', ''b:0.9-r0@https://up'') \<notin> edgeRel (Graph sub)"
    by simp
  ultimately show ?thesis using ok oks f p by simp
qed

section \<open>The cycle resolver\<close>

lemma Edge_Inr:
  "Edge l s t = Inr e \<Longrightarrow> e \<in> set (edges l) \<and> edgeSource e = s \<and> edgeTarget e = t"
  by (auto simp: Edge_def find_Some_iff split: option.splits)

lemma Edge_edgeRel: "Edge l s t = Inr e \<Longrightarrow> (s, t) \<in> edgeRel l"
  by (force simp: edgeRel_def edgePairs_def dest: Edge_Inr)

lemma find_append_None: "find P xs = None \<Longrightarrow> find P (xs @ ys) = find P ys"
  by (induction xs) (auto split: if_splits)

lemma Edge_appended:
  assumes "(s, t) \<notin> edgeRel l"
  shows "Edge (l\<lparr>edges := edges l @ [\<lparr>edgeSource = s, edgeTarget = t, Attributes = a\<rparr>]\<rparr>) s t
           = Inr \<lparr>edgeSource = s, edgeTarget = t, Attributes = a\<rparr>"
proof -
  from assms have "find (\<lambda>e. edgeSource e = s \<and> edgeTarget e = t) (edges l) = None"
    by (force simp: find_None_iff edgeRel_def edgePairs_def)
  then show ?thesis by (simp add: Edge_def find_append_None)
qed

lemma culprit_Inr_iff:
  assumes "sp (Graph g) (target c) (src c) = Inr path" and "2 \<le> length path"
      and "removeSrc = path ! (length path - 2)" and "removeTarget = path ! (length path - 1)"
      and "Edge (Graph g) removeSrc removeTarget = Inr edge"
      and "Attributes edge = Some attributes"
      and "RemoveEdge (Graph g) removeSrc removeTarget = Inr l1"
  shows "culprit sp g c = Inr (removeSrc, removeTarget,
           (case map_of attributes ''target-origin'' of None \<Rightarrow> [] | Some d \<Rightarrow> d), l1)"
  using assms by (simp add: culprit_def)

text \<open>
  C5. \<^verbatim>\<open>resolveCycle\<close> makes one rotation. With \<open>path\<close> the shortest path from
  \<open>target c\<close> to \<open>src c\<close>, it removes the last hop of the path, commits the edge from
  \<open>src c\<close> to \<open>target c\<close> with the attribute \<open>target-origin = dep\<close>, and calls
  \<^verbatim>\<open>addAppropriatePackage\<close> once, for the source of the removed edge and the dependency
  name that edge carried. Its result is the result of that call: an error of the call is
  wrapped, a pending cycle of the call is an error, and then the edges are those the one
  rotation left.
\<close>

theorem resolveCycle_single_rotation:
  assumes "sp (Graph g) (target c) (src c) = Inr path" and "2 \<le> length path"
      and "removeSrc = path ! (length path - 2)" and "removeTarget = path ! (length path - 1)"
      and "Edge (Graph g) removeSrc removeTarget = Inr edge"
      and "Attributes edge = Some attributes"
      and "RemoveEdge (Graph g) removeSrc removeTarget = Inr l1"
      and "AddEdge l1 (src c) (target c) [(''target-origin'', dep)] = Inr l2"
      and "Vertex l2 removeSrc = Inr config"
      and "addAppropriatePackage resolver (g\<lparr>Graph := l2\<rparr>) config
             (case map_of attributes ''target-origin'' of None \<Rightarrow> [] | Some d \<Rightarrow> d) lr = (g3, cyc, e)"
  shows "resolveCycle sp resolver g c dep lr =
           (g3, case e of
                  Some err \<Rightarrow> Some (Wrap ''unable to re-add original edge'' err)
                | None \<Rightarrow>
                    (case cyc of
                       Some cy \<Rightarrow> Some (Errorf ''unable re-add original edge with new dep still causes cycle'')
                     | None \<Rightarrow> None))
         \<and> edgeRel l2 = insert (src c, target c) (edgeRel (Graph g) - {(removeSrc, removeTarget)})
         \<and> Edge l2 (src c) (target c) =
             Inr \<lparr>edgeSource = src c, edgeTarget = target c, Attributes = Some [(''target-origin'', dep)]\<rparr>
         \<and> (cyc \<noteq> None \<longrightarrow> edges (Graph g3) = edges l2)"
proof -
  have cu: "culprit sp g c = Inr (removeSrc, removeTarget,
           (case map_of attributes ''target-origin'' of None \<Rightarrow> [] | Some d \<Rightarrow> d), l1)"
    using assms(1-7) by (rule culprit_Inr_iff)
  have 1: "resolveCycle sp resolver g c dep lr =
           (g3, case e of
                  Some err \<Rightarrow> Some (Wrap ''unable to re-add original edge'' err)
                | None \<Rightarrow>
                    (case cyc of
                       Some cy \<Rightarrow> Some (Errorf ''unable re-add original edge with new dep still causes cycle'')
                     | None \<Rightarrow> None))"
    by (simp add: resolveCycle_culprit cu assms(8,9,10) split: option.splits)
  have 2: "edgeRel l2 = insert (src c, target c) (edgeRel (Graph g) - {(removeSrc, removeTarget)})"
    using AddEdge_edgeRel [OF assms(8)] RemoveEdge_edgeRel [OF assms(7)] by simp
  from assms(8) have "(src c, target c) \<notin> edgeRel l1"
      and "l2 = l1\<lparr>edges := edges l1 @
             [\<lparr>edgeSource = src c, edgeTarget = target c, Attributes = Some [(''target-origin'', dep)]\<rparr>]\<rparr>"
    by (simp_all add: AddEdge_Inr)
  then have 3: "Edge l2 (src c) (target c) =
             Inr \<lparr>edgeSource = src c, edgeTarget = target c, Attributes = Some [(''target-origin'', dep)]\<rparr>"
    by (simp add: Edge_appended)
  have 4: "cyc \<noteq> None \<longrightarrow> edges (Graph g3) = edges l2"
    using addAppropriatePackage_props(2) [OF assms(10)] by simp
  from 1 2 3 4 show ?thesis by blast
qed

text \<open>
  C10. When \<^verbatim>\<open>resolveCycle\<close> has removed the culprit edge and then fails, the edge stays
  removed: the graph returned with the error is not the graph before the repair. When
  only the replacement edge could not be added, the edges are those of the graph without
  the culprit edge; after any later failure they are those with the replacement edge
  committed as well.
\<close>

theorem resolveCycle_failure_not_rolled_back:
  assumes "lgraph_ok (Graph g)"
      and "sp (Graph g) (target c) (src c) = Inr path" and "2 \<le> length path"
      and "removeSrc = path ! (length path - 2)" and "removeTarget = path ! (length path - 1)"
      and "removeTarget = src c"
      and "Edge (Graph g) removeSrc removeTarget = Inr edge"
      and "Attributes edge = Some attributes"
      and "resolveCycle sp resolver g c dep lr = (g', Some err)"
  shows "(removeSrc, removeTarget) \<in> edgeRel (Graph g)
         \<and> (removeSrc, removeTarget) \<notin> edgeRel (Graph g')
         \<and> (if \<exists>e. err = Wrap ''unable to add replacement edge'' e
            then edgeRel (Graph g') = edgeRel (Graph g) - {(removeSrc, removeTarget)}
            else edgeRel (Graph g') = insert (src c, target c) (edgeRel (Graph g) - {(removeSrc, removeTarget)}))"
proof -
  have inE: "(removeSrc, removeTarget) \<in> edgeRel (Graph g)"
    using assms(7) by (rule Edge_edgeRel)
  obtain l1 where re: "RemoveEdge (Graph g) removeSrc removeTarget = Inr l1"
    using assms(7) by (auto simp: RemoveEdge_def)
  note r1 = RemoveEdge_edgeRel [OF re]
  have cu: "culprit sp g c = Inr (removeSrc, removeTarget,
           (case map_of attributes ''target-origin'' of None \<Rightarrow> [] | Some d \<Rightarrow> d), l1)"
    using assms(2-5,7,8) re by (rule culprit_Inr_iff)
  have ne: "(removeSrc, removeTarget) \<noteq> (src c, target c)"
  proof
    assume "(removeSrc, removeTarget) = (src c, target c)"
    with assms(6) have "removeSrc = removeTarget" by simp
    with inE lgraph_ok_no_loop [OF assms(1)] show False by simp
  qed
  show ?thesis
  proof (cases "AddEdge l1 (src c) (target c) [(''target-origin'', dep)]")
    case (Inl e)
    with assms(9) cu have "g' = g\<lparr>Graph := l1\<rparr>" "err = Wrap ''unable to add replacement edge'' e"
      by (simp_all add: resolveCycle_culprit)
    with r1 inE show ?thesis by simp
  next
    case ae: (Inr l2)
    note r2 = AddEdge_edgeRel [OF ae]
    show ?thesis
    proof (cases "Vertex l2 removeSrc")
      case (Inl e)
      with assms(9) cu ae have "g' = g\<lparr>Graph := l2\<rparr>" "err = Wrap ''unable to find original vertex'' e"
        by (simp_all add: resolveCycle_culprit)
      with r1 r2 inE ne show ?thesis by auto
    next
      case (Inr config)
      obtain g3 cyc e3 where ap: "addAppropriatePackage resolver (g\<lparr>Graph := l2\<rparr>) config
             (case map_of attributes ''target-origin'' of None \<Rightarrow> [] | Some d \<Rightarrow> d) lr = (g3, cyc, e3)"
        by (cases "addAppropriatePackage resolver (g\<lparr>Graph := l2\<rparr>) config
             (case map_of attributes ''target-origin'' of None \<Rightarrow> [] | Some d \<Rightarrow> d) lr")
      with assms(9) cu ae Inr have g': "g' = g3" and fail: "e3 \<noteq> None \<or> cyc \<noteq> None"
          and er: "\<not> (\<exists>e. err = Wrap ''unable to add replacement edge'' e)"
        by (auto simp: resolveCycle_culprit split: option.splits)
      have "edgeRel (Graph g3) = edgeRel (Graph (g\<lparr>Graph := l2\<rparr>))"
        using addAppropriatePackage_props(2) [OF ap fail] by (rule edgeRel_edges)
      then have "edgeRel (Graph g3) = edgeRel l2" by simp
      with g' er r1 r2 inE ne show ?thesis by auto
    qed
  qed
qed


text \<open>
  The state of the construction for \<open>twoPackages\<close> when the dependency of \<open>b\<close> on \<open>a\<close> is
  found to close a cycle: the vertices \<open>a\<close> and \<open>b\<close>, and the edge from \<open>a\<close> to \<open>b\<close>.
\<close>

definition beforeRepair :: Graph where
  "beforeRepair = fst (addAppropriatePackage tableResolver graphA (OriginPackage pkgA) ''b'' ''local-index'')"

definition cycleBA :: cycle where
  "cycleBA = \<lparr>src = ''b:1-r0@local'', target = ''a:1-r0@local''\<rparr>"

text \<open>A resolver that knows the local packages only.\<close>

definition localResolver :: resolver where
  "localResolver dep =
     (if dep = ''a'' then
        Inr [\<lparr>candName = ''a'', candVersion = ''1-r0'', IndexUri = ''local-index'', Uri = ''local''\<rparr>]
      else if dep = ''b'' then
        Inr [\<lparr>candName = ''b'', candVersion = ''1-r0'', IndexUri = ''local-index'', Uri = ''local''\<rparr>]
      else Inr [])"

lemmas example_defs3 = example_defs2 beforeRepair_def cycleBA_def localResolver_def
  pathWithin.simps deepen.simps

lemma addVertex_keeps_fst: "keeps g (fst (addVertex g p))"
  using addVertex_keeps [of g p "fst (addVertex g p)" "snd (addVertex g p)"] by simp

lemma addAppropriatePackage_keeps_fst: "keeps g (fst (addAppropriatePackage resolver g c dep lr))"
proof (cases "addAppropriatePackage resolver g c dep lr")
  case (fields g' cyc err)
  then show ?thesis using addAppropriatePackage_props(1) by fastforce
qed

lemma graphA_ok: "lgraph_ok (Graph graphA)"
  using addVertex_keeps_fst [of "emptyGraph twoPackages strict" "OriginPackage pkgA"]
    lgraph_ok_newGraph
  by (simp add: graphA_def keeps_def emptyGraph_def)

lemma beforeRepair_ok: "lgraph_ok (Graph beforeRepair)"
  using addAppropriatePackage_keeps_fst [of graphA tableResolver "OriginPackage pkgA" "''b''" "''local-index''"]
    graphA_ok
  by (simp add: beforeRepair_def keeps_def)

lemma beforeRepair_facts:
  "searchShortest (Graph beforeRepair) (target cycleBA) (src cycleBA) = Inr [''a:1-r0@local'', ''b:1-r0@local'']"
  "Edge (Graph beforeRepair) ''a:1-r0@local'' ''b:1-r0@local'' =
     Inr \<lparr>edgeSource = ''a:1-r0@local'', edgeTarget = ''b:1-r0@local'',
          Attributes = Some [(''target-origin'', ''b'')]\<rparr>"
  "edgePairs (Graph beforeRepair) = [(''a:1-r0@local'', ''b:1-r0@local'')]"
  by (simp_all add: example_defs3)


text \<open>The container of \<open>beforeRepair\<close> after the rotation: the edge from \<open>a\<close> to \<open>b\<close>
  removed, the edge from \<open>b\<close> to \<open>a\<close> committed.\<close>

definition rotated :: lgraph where
  "rotated = projr (AddEdge (projr (RemoveEdge (Graph beforeRepair) ''a:1-r0@local'' ''b:1-r0@local''))
               ''b:1-r0@local'' ''a:1-r0@local'' [(''target-origin'', ''a'')])"

lemma rotated_facts:
  "RemoveEdge (Graph beforeRepair) ''a:1-r0@local'' ''b:1-r0@local''
     = Inr (projr (RemoveEdge (Graph beforeRepair) ''a:1-r0@local'' ''b:1-r0@local''))"
  "AddEdge (projr (RemoveEdge (Graph beforeRepair) ''a:1-r0@local'' ''b:1-r0@local''))
     (src cycleBA) (target cycleBA) [(''target-origin'', ''a'')] = Inr rotated"
  "Vertex rotated ''a:1-r0@local'' = Inr (OriginPackage pkgA)"
  "edgePairs rotated = [(''b:1-r0@local'', ''a:1-r0@local'')]"
  by (simp_all add: example_defs3 rotated_def)

text \<open>
  With the resolver that offers an upstream \<open>b\<close> the one rotation repairs the cycle; with
  the resolver that knows the local \<open>b\<close> only, the dependency of \<open>a\<close> is a pending cycle
  again, and \<^verbatim>\<open>resolveCycle\<close> returns an error with the edges of the rotated container.
\<close>

theorem resolveCycle_single_rotation_witness:
  "resolveCycle searchShortest tableResolver beforeRepair cycleBA ''a'' ''local-index''
     = (fst (addAppropriatePackage tableResolver (beforeRepair\<lparr>Graph := rotated\<rparr>)
               (OriginPackage pkgA) ''b'' ''local-index''), None)
   \<and> edgeRel rotated = insert (''b:1-r0@local'', ''a:1-r0@local'')
        (edgeRel (Graph beforeRepair) - {(''a:1-r0@local'', ''b:1-r0@local'')})
   \<and> edgePairs (Graph (fst (resolveCycle searchShortest tableResolver beforeRepair cycleBA ''a'' ''local-index'')))
       = [(''b:1-r0@local'', ''a:1-r0@local''), (''a:1-r0@local'', ''b:0.9-r0@https://up'')]
   \<and> resolveCycle searchShortest localResolver beforeRepair cycleBA ''a'' ''local-index''
       = (fst (addAppropriatePackage localResolver (beforeRepair\<lparr>Graph := rotated\<rparr>)
                 (OriginPackage pkgA) ''b'' ''local-index''),
          Some (Errorf ''unable re-add original edge with new dep still causes cycle''))
   \<and> edges (Graph (fst (resolveCycle searchShortest localResolver beforeRepair cycleBA ''a'' ''local-index'')))
       = edges rotated"
proof -
  let ?a = "''a:1-r0@local''" and ?b = "''b:1-r0@local''"
  let ?e = "\<lparr>edgeSource = ?a, edgeTarget = ?b, Attributes = Some [(''target-origin'', ''b'')]\<rparr>"
  let ?l1 = "projr (RemoveEdge (Graph beforeRepair) ?a ?b)"
  let ?t = "addAppropriatePackage tableResolver (beforeRepair\<lparr>Graph := rotated\<rparr>)
               (OriginPackage pkgA) ''b'' ''local-index''"
  let ?u = "addAppropriatePackage localResolver (beforeRepair\<lparr>Graph := rotated\<rparr>)
               (OriginPackage pkgA) ''b'' ''local-index''"
  have od: "(case map_of [(''target-origin'', ''b'')] ''target-origin'' of None \<Rightarrow> [] | Some d \<Rightarrow> d) = ''b''"
    by simp
  have t: "?t = (fst ?t, None, None)"
    by (simp add: example_defs3 rotated_def prod_eq_iff)
  have u: "?u = (fst ?u, Some \<lparr>src = ?a, target = ?b\<rparr>, None)"
    by (simp add: example_defs3 rotated_def prod_eq_iff)
  have p: "2 \<le> length [?a, ?b]" "?a = [?a, ?b] ! (length [?a, ?b] - 2)"
      "?b = [?a, ?b] ! (length [?a, ?b] - 1)" "Attributes ?e = Some [(''target-origin'', ''b'')]"
    by simp_all
  note T = resolveCycle_single_rotation [where sp = searchShortest and g = beforeRepair
      and c = cycleBA, OF beforeRepair_facts(1) p(1,2,3) beforeRepair_facts(2) p(4)
      rotated_facts(1,2,3), unfolded od]
  from T [OF t] have 1: "resolveCycle searchShortest tableResolver beforeRepair cycleBA ''a'' ''local-index''
       = (fst ?t, None)"
    and 2: "edgeRel rotated = insert (?b, ?a) (edgeRel (Graph beforeRepair) - {(?a, ?b)})"
    by (simp_all add: cycleBA_def)
  have 3: "edgePairs (Graph (fst ?t)) = [(?b, ?a), (?a, ''b:0.9-r0@https://up'')]"
    by (simp add: example_defs3 rotated_def)
  from T [OF u] have 4: "resolveCycle searchShortest localResolver beforeRepair cycleBA ''a'' ''local-index''
       = (fst ?u, Some (Errorf ''unable re-add original edge with new dep still causes cycle''))"
    and 5: "edges (Graph (fst ?u)) = edges rotated"
    by simp_all
  from 1 2 3 4 5 show ?thesis by simp
qed

theorem resolveCycle_failure_not_rolled_back_witness:
  "lgraph_ok (Graph beforeRepair)
   \<and> snd (resolveCycle searchShortest localResolver beforeRepair cycleBA ''a'' ''local-index'')
       = Some (Errorf ''unable re-add original edge with new dep still causes cycle'')
   \<and> (''a:1-r0@local'', ''b:1-r0@local'') \<in> edgeRel (Graph beforeRepair)
   \<and> (''a:1-r0@local'', ''b:1-r0@local'')
       \<notin> edgeRel (Graph (fst (resolveCycle searchShortest localResolver beforeRepair cycleBA ''a'' ''local-index'')))
   \<and> edgeRel (Graph (fst (resolveCycle searchShortest localResolver beforeRepair cycleBA ''a'' ''local-index'')))
       = insert (''b:1-r0@local'', ''a:1-r0@local'')
           (edgeRel (Graph beforeRepair) - {(''a:1-r0@local'', ''b:1-r0@local'')})"
proof -
  let ?a = "''a:1-r0@local''" and ?b = "''b:1-r0@local''"
  let ?e = "\<lparr>edgeSource = ?a, edgeTarget = ?b, Attributes = Some [(''target-origin'', ''b'')]\<rparr>"
  let ?r = "resolveCycle searchShortest localResolver beforeRepair cycleBA ''a'' ''local-index''"
  have s: "snd ?r = Some (Errorf ''unable re-add original edge with new dep still causes cycle'')"
    by (simp add: example_defs3)
  then have r: "?r = (fst ?r, Some (Errorf ''unable re-add original edge with new dep still causes cycle''))"
    by (simp add: prod_eq_iff)
  have p: "2 \<le> length [?a, ?b]" "?a = [?a, ?b] ! (length [?a, ?b] - 2)"
      "?b = [?a, ?b] ! (length [?a, ?b] - 1)" "?b = src cycleBA"
      "Attributes ?e = Some [(''target-origin'', ''b'')]"
    by (simp_all add: cycleBA_def)
  from resolveCycle_failure_not_rolled_back [where sp = searchShortest and g = beforeRepair
      and c = cycleBA, OF beforeRepair_ok beforeRepair_facts(1) p(1,2,3,4)
      beforeRepair_facts(2) p(5) r]
  show ?thesis using s beforeRepair_ok by (simp add: cycleBA_def)
qed


text \<open>
  An origin package \<open>m\<close> with a subpackage \<open>s\<close>, of which the store knows the version
  \<open>0.9-r0\<close>, and which \<open>m\<close> also needs to build; the resolver offers that version.
\<close>

definition pkgM :: configuration where
  "pkgM = \<lparr>cfgName = ''m'', cfgVersion = ''1-r0'', fullVersion = ''1-r0'', Subpackages = [''s''],
           Repositories = [], Keyring = [], EnvPackages = [''s'']\<rparr>"

definition pkgS :: configuration where
  "pkgS = \<lparr>cfgName = ''s'', cfgVersion = ''0.9-r0'', fullVersion = ''0.9-r0'', Subpackages = [],
           Repositories = [], Keyring = [], EnvPackages = []\<rparr>"

definition subPackages :: Packages where
  "subPackages =
     \<lparr>Packages = [pkgM],
      Config = (\<lambda>name. if name = ''m'' then [pkgM] else if name = ''s'' then [pkgS] else [])\<rparr>"

definition subResolver :: resolver where
  "subResolver dep =
     (if dep = ''s'' then
        Inr [\<lparr>candName = ''s'', candVersion = ''0.9-r0'', IndexUri = ''local-index'', Uri = ''local''\<rparr>]
      else Inr [])"

definition subWorld :: "string collaborators" where
  "subWorld = world\<lparr>NewPkgResolver := (\<lambda>indexes. subResolver)\<rparr>"

text \<open>The graph when the dependency of \<open>m\<close> on \<open>s\<close> is found to close a cycle: the
  vertices \<open>m\<close> and \<open>s\<close>, and the subpackage edge from \<open>s\<close> to \<open>m\<close>.\<close>

definition beforeReverse :: Graph where
  "beforeReverse =
     fst (addSubpackages subPackages pkgM (Subpackages pkgM)
            (fst (addVertex (emptyGraph subPackages strict) (OriginPackage pkgM)), []))"

lemmas example_defs4 = example_defs3 pkgM_def pkgS_def subPackages_def subResolver_def subWorld_def
  beforeReverse_def WithAllowUnresolved_def

text \<open>
  C6 fails on the code. The subpackage edge from \<open>s\<close> to \<open>m\<close> was added with no option,
  so its attributes are the empty map the library allocates, not \<^verbatim>\<open>nil\<close>, and the test
  \<^verbatim>\<open>edge.Properties.Attributes == nil\<close> lets it pass: \<^verbatim>\<open>resolveCycle\<close> reads the
  dependency name \<open>""\<close>, removes the subpackage edge, commits the edge from \<open>m\<close> to \<open>s\<close>
  and resolves the empty name for \<open>s\<close>. Without \<open>allowUnresolved\<close> this ends in an
  unresolved-dependency error on a changed graph; with it the repair succeeds, with a
  placeholder vertex of empty name.
\<close>

theorem resolveCycle_missing_origin_not_detected:
  "Edge (Graph beforeReverse) ''s:0.9-r0@local'' ''m:1-r0@local''
     = Inr \<lparr>edgeSource = ''s:0.9-r0@local'', edgeTarget = ''m:1-r0@local'', Attributes = Some []\<rparr>
   \<and> snd (addAppropriatePackage subResolver beforeReverse (OriginPackage pkgM) ''s'' ''local-index'')
       = (Some \<lparr>src = ''m:1-r0@local'', target = ''s:0.9-r0@local''\<rparr>, None)
   \<and> edgePairs (Graph (fst (addAppropriatePackage subResolver beforeReverse (OriginPackage pkgM) ''s''
         ''local-index''))) = [(''s:0.9-r0@local'', ''m:1-r0@local'')]
   \<and> searchShortest (Graph beforeReverse) ''s:0.9-r0@local'' ''m:1-r0@local''
       = Inr [''s:0.9-r0@local'', ''m:1-r0@local'']
   \<and> snd (resolveCycle searchShortest subResolver beforeReverse
              \<lparr>src = ''m:1-r0@local'', target = ''s:0.9-r0@local''\<rparr> ''s'' ''local-index'')
       = Some (Wrap ''unable to re-add original edge'' (Errorf ''unable to resolve dependency''))
   \<and> edgePairs (Graph (fst (resolveCycle searchShortest subResolver beforeReverse
              \<lparr>src = ''m:1-r0@local'', target = ''s:0.9-r0@local''\<rparr> ''s'' ''local-index'')))
       = [(''m:1-r0@local'', ''s:0.9-r0@local'')]
   \<and> NewGraph subWorld subPackages []
       = Inl (Wrap ''unable to build graph''
               (Join [Wrap ''unable to re-add original edge'' (Errorf ''unable to resolve dependency'')]))
   \<and> \<not> isl (NewGraph subWorld subPackages [WithAllowUnresolved])
   \<and> edgePairs (Graph (projr (NewGraph subWorld subPackages [WithAllowUnresolved])))
       = [(''m:1-r0@local'', ''s:0.9-r0@local''), (''s:0.9-r0@local'', '':@'')]"
  by (simp add: example_defs4)

section \<open>Key material\<close>

text \<open>
  \<^verbatim>\<open>getKeyMaterial\<close> parses a key that starts with \<^verbatim>\<open>https://\<close> as a URI and takes
  any other key as a file path (\<^verbatim>\<open>uri.New\<close>), and then switches on the scheme of the
  parsed URL: \<^verbatim>\<open>file\<close>, \<^verbatim>\<open>https\<close>, and a \<^verbatim>\<open>default\<close> branch that returns the
  scheme-not-supported error. The \<^verbatim>\<open>default\<close> branch is out of reach. A key that does
  not start with \<^verbatim>\<open>https://\<close> goes through \<^verbatim>\<open>uri.New\<close>, which makes a \<^verbatim>\<open>file\<close>
  URI of whatever it is given, and a key that starts with \<^verbatim>\<open>https://\<close> has the scheme
  \<^verbatim>\<open>https\<close> once parsed. Under these two facts about the parsers no key at all is
  answered with the scheme error.
\<close>

lemma getKeyMaterial_scheme_error_unreachable:
  assumes new: "\<And>k u. urlParse w (uriNew w k) = Inr u \<Longrightarrow> Scheme u = ''file''"
      and parse: "\<And>k a u. prefix ''https://'' k \<Longrightarrow> uriParse w k = Inr a \<Longrightarrow> urlParse w a = Inr u
                    \<Longrightarrow> Scheme u = ''https''"
  shows "getKeyMaterial w key \<noteq> Inl (Errorf ''key scheme not supported'')"
proof (cases "prefix ''https://'' key")
  case True
  show ?thesis
  proof (cases "uriParse w key")
    case (Inl e)
    with True show ?thesis by (simp add: getKeyMaterial_def)
  next
    case a: (Inr a)
    show ?thesis
    proof (cases "urlParse w a")
      case (Inl e)
      with True a show ?thesis by (simp add: getKeyMaterial_def)
    next
      case (Inr u)
      with parse [OF True a] have "Scheme u = ''https''" by simp
      with True a Inr show ?thesis by (simp add: getKeyMaterial_def split: sum.splits)
    qed
  qed
next
  case False
  show ?thesis
  proof (cases "urlParse w (uriNew w key)")
    case (Inl e)
    with False show ?thesis by (simp add: getKeyMaterial_def)
  next
    case (Inr u)
    with new have "Scheme u = ''file''" by simp
    with False Inr show ?thesis by (simp add: getKeyMaterial_def split: sum.splits)
  qed
qed

lemma https_scheme: "prefix ''https://'' k \<Longrightarrow> takeWhile (\<lambda>ch. ch \<noteq> CHR '':'') k = ''https''"
  by (auto simp: prefix_def)

text \<open>A file system whose reads are refused.\<close>

definition refusingWorld :: "string collaborators" where
  "refusingWorld = world\<lparr>ReadFile := (\<lambda>path. Inl (External ''permission denied''))\<rparr>"

text \<open>
  C9 fails on the unsupported schemes. The keys \<^verbatim>\<open>ftp://host/key\<close> and
  \<^verbatim>\<open>http://host/key\<close> are not refused: they are read as local file paths, so that with
  no such file the answer is \<^verbatim>\<open>nil, nil\<close>, the answer for a missing key file, and with
  a file system that refuses the read the answer is the read error. No key at all gets the
  scheme-not-supported error. The other parts of C9 hold: a missing local file gives
  \<^verbatim>\<open>nil\<close> bytes and no error, another read failure gives an error.
\<close>

theorem getKeyMaterial_unsupported_scheme_not_refused:
  "getKeyMaterial world ''ftp://host/key'' = Inr None
   \<and> getKeyMaterial world ''http://host/key'' = Inr None
   \<and> getKeyMaterial refusingWorld ''ftp://host/key''
       = Inl (Wrap ''failed to read repository'' (External ''permission denied''))
   \<and> (\<forall>key. getKeyMaterial world key \<noteq> Inl (Errorf ''key scheme not supported''))
   \<and> getKeyMaterial world ''/keys/melange.rsa.pub'' = Inr None
   \<and> getKeyMaterial refusingWorld ''/keys/melange.rsa.pub''
       = Inl (Wrap ''failed to read repository'' (External ''permission denied''))
   \<and> getKeyMaterial world ''https://host/key'' = Inl (Wrap ''unable to get key'' (External ''no network''))"
proof -
  have "\<forall>key. getKeyMaterial world key \<noteq> Inl (Errorf ''key scheme not supported'')"
  proof
    fix key
    show "getKeyMaterial world key \<noteq> Inl (Errorf ''key scheme not supported'')"
    proof (rule getKeyMaterial_scheme_error_unreachable)
      fix k u
      assume "urlParse world (uriNew world k) = Inr u"
      then show "Scheme u = ''file''" by (auto simp: world_def)
    next
      fix k a u
      assume "prefix ''https://'' k" and "uriParse world k = Inr a" and "urlParse world a = Inr u"
      then show "Scheme u = ''https''" by (auto simp: world_def https_scheme)
    qed
  qed
  moreover have "getKeyMaterial world ''ftp://host/key'' = Inr None"
    by (simp add: getKeyMaterial_def world_def)
  moreover have "getKeyMaterial world ''http://host/key'' = Inr None"
    by (simp add: getKeyMaterial_def world_def)
  moreover have "getKeyMaterial refusingWorld ''ftp://host/key''
       = Inl (Wrap ''failed to read repository'' (External ''permission denied''))"
    by (simp add: getKeyMaterial_def world_def refusingWorld_def)
  moreover have "getKeyMaterial world ''/keys/melange.rsa.pub'' = Inr None"
    by (simp add: getKeyMaterial_def world_def)
  moreover have "getKeyMaterial refusingWorld ''/keys/melange.rsa.pub''
       = Inl (Wrap ''failed to read repository'' (External ''permission denied''))"
    by (simp add: getKeyMaterial_def world_def refusingWorld_def)
  moreover have "getKeyMaterial world ''https://host/key''
       = Inl (Wrap ''unable to get key'' (External ''no network''))"
    by (simp add: getKeyMaterial_def world_def)
  ultimately show ?thesis by blast
qed

section \<open>Accumulated errors\<close>

lemma addSubpackageVersions_prepend:
  "addSubpackageVersions c vs (g, errs) = (g', es) \<Longrightarrow>
     addSubpackageVersions c vs (g, pre @ errs) = (g', pre @ es)"
proof (induction vs arbitrary: g errs)
  case Nil
  then show ?case by simp
next
  case (Cons v vs)
  show ?case
  proof (cases "fullVersion v = fullVersion c")
    case True
    with Cons show ?thesis by simp
  next
    case nv: False
    obtain g1 err where av: "addVertex g (OriginPackage v) = (g1, err)"
      by (cases "addVertex g (OriginPackage v)")
    note f = addVertex_failedOtherThan [OF av]
    show ?thesis
    proof (cases "AddEdge (Graph g1) (packageHash (OriginPackage v)) (packageHash (OriginPackage c)) []")
      case (Inl e)
      show ?thesis
      proof (cases "failedOtherThan (Some e) ErrEdgeAlreadyExists")
        case None
        with Cons.prems nv av f Inl have "addSubpackageVersions c vs (g1, errs) = (g', es)" by simp
        from Cons.IH [OF this] None nv av f Inl show ?thesis by simp
      next
        case (Some e')
        with Cons.prems nv av f Inl
        have "addSubpackageVersions c vs (g1, errs @ [Wrap ''unable to add edge for subpackage'' e']) = (g', es)"
          by simp
        from Cons.IH [OF this] Some nv av f Inl show ?thesis by simp
      qed
    next
      case (Inr l)
      with Cons.prems nv av f have "addSubpackageVersions c vs (g1\<lparr>Graph := l\<rparr>, errs) = (g', es)" by simp
      from Cons.IH [OF this] nv av f Inr show ?thesis by simp
    qed
  qed
qed

lemma addSubpackages_prepend:
  "addSubpackages pkgs c names (g, errs) = (g', es) \<Longrightarrow>
     addSubpackages pkgs c names (g, pre @ errs) = (g', pre @ es)"
proof (induction names arbitrary: g errs)
  case Nil
  then show ?case by simp
next
  case (Cons n names)
  obtain g1 es1 where a: "addSubpackageVersions c (Config pkgs n) (g, errs) = (g1, es1)"
    by (cases "addSubpackageVersions c (Config pkgs n) (g, errs)")
  with Cons.prems have "addSubpackages pkgs c names (g1, es1) = (g', es)" by simp
  from Cons.IH [OF this] a addSubpackageVersions_prepend [OF a, of pre] show ?case by simp
qed

lemma addBuildDeps_prepend:
  "addBuildDeps sp resolver c lr deps (g, errs) = (g', es) \<Longrightarrow>
     addBuildDeps sp resolver c lr deps (g, pre @ errs) = (g', pre @ es)"
proof (induction deps arbitrary: g errs)
  case Nil
  then show ?case by simp
next
  case (Cons d deps)
  show ?case
  proof (cases "d = []")
    case True
    with Cons.prems have "addBuildDeps sp resolver c lr deps
        (g, errs @ [Errorf ''empty package name in environment packages'']) = (g', es)"
      by simp
    from Cons.IH [OF this] True show ?thesis by simp
  next
    case ne: False
    obtain g1 cyc e1 where ap: "addAppropriatePackage resolver g (OriginPackage c) d lr = (g1, cyc, e1)"
      by (cases "addAppropriatePackage resolver g (OriginPackage c) d lr")
    show ?thesis
    proof (cases e1)
      case (Some err)
      with Cons.prems ne ap have "addBuildDeps sp resolver c lr deps (g1, errs @ [err]) = (g', es)"
        by (cases cyc) simp_all
      from Cons.IH [OF this] Some ne ap show ?thesis by (cases cyc) simp_all
    next
      case None
      show ?thesis
      proof (cases cyc)
        case nc: None
        with Cons.prems ne ap None have "addBuildDeps sp resolver c lr deps (g1, errs) = (g', es)"
          by simp
        from Cons.IH [OF this] nc None ne ap show ?thesis by simp
      next
        case (Some cy)
        obtain g2 e2 where rc: "resolveCycle sp resolver g1 cy d lr = (g2, e2)"
          by (cases "resolveCycle sp resolver g1 cy d lr")
        show ?thesis
        proof (cases e2)
          case n2: None
          with Cons.prems ne ap None Some rc
          have "addBuildDeps sp resolver c lr deps (g2, errs) = (g', es)" by simp
          from Cons.IH [OF this] n2 None Some rc ne ap show ?thesis by simp
        next
          case s2: (Some err)
          with Cons.prems ne ap None Some rc
          have "addBuildDeps sp resolver c lr deps (g2, errs @ [err]) = (g', es)" by simp
          from Cons.IH [OF this] s2 None Some rc ne ap show ?thesis by simp
        qed
      qed
    qed
  qed
qed

text \<open>The errors recorded before a step are kept in front of those it records.\<close>

definition withEarlier ::
  "error list \<Rightarrow> error + (Graph \<times> (string \<rightharpoonup> 'ix) \<times> error list)
     \<Rightarrow> error + (Graph \<times> (string \<rightharpoonup> 'ix) \<times> error list)" where
  "withEarlier pre res =
     (case res of
        Inl e \<Rightarrow> Inl e
      | Inr (g', indexes', es) \<Rightarrow> Inr (g', indexes', pre @ es))"

lemma addPackage_prepend:
  "addPackage w pkgs gopts c (g, indexes, pre @ errs)
     = withEarlier pre (addPackage w pkgs gopts c (g, indexes, errs))"
proof -
  obtain g1 err where av: "addVertex g (OriginPackage c) = (g1, err)"
    by (cases "addVertex g (OriginPackage c)")
  note f = addVertex_failedOtherThan [OF av]
  obtain g2 es2 where sb: "addSubpackages pkgs c (Subpackages c) (g1, errs) = (g2, es2)"
    by (cases "addSubpackages pkgs c (Subpackages c) (g1, errs)")
  note sb' = addSubpackages_prepend [OF sb, of pre]
  have bd: "addBuildDeps sp resolver c lr deps (g2, pre @ es2)
      = (case addBuildDeps sp resolver c lr deps (g2, es2) of (g3, es3) \<Rightarrow> (g3, pre @ es3))"
    for sp resolver lr deps
    using addBuildDeps_prepend [of sp resolver c lr deps g2 es2 _ _ pre]
    by (cases "addBuildDeps sp resolver c lr deps (g2, es2)") simp
  show ?thesis
    by (simp add: addPackage_def withEarlier_def av f sb sb' bd Let_def
          split: prod.splits sum.splits)
qed

lemma buildLoop_prepend:
  "buildLoop w pkgs gopts cs (g, indexes, pre @ errs)
     = withEarlier pre (buildLoop w pkgs gopts cs (g, indexes, errs))"
proof (induction cs arbitrary: g indexes errs)
  case Nil
  show ?case by (simp add: withEarlier_def)
next
  case (Cons c cs)
  show ?case
  proof (cases "addPackage w pkgs gopts c (g, indexes, errs)")
    case (Inl e)
    then show ?thesis by (simp add: addPackage_prepend withEarlier_def)
  next
    case (Inr st)
    obtain g1 ix1 es1 where st: "st = (g1, ix1, es1)" by (cases st)
    with Inr Cons.IH [of g1 ix1 es1] show ?thesis
      by (simp add: addPackage_prepend withEarlier_def)
  qed
qed


text \<open>The errors that end the loop at once: those of a key and of the index loader.\<close>

definition fatal :: "error \<Rightarrow> bool" where
  "fatal e = (case e of
                Wrap m e' \<Rightarrow> m = ''failed to get key material'' \<or> m = ''unable to load repositories''
              | _ \<Rightarrow> False)"

lemma loadKeys_Inl: "loadKeys w ks keyMap = Inl e \<Longrightarrow> fatal e"
  by (induction ks arbitrary: keyMap) (auto simp: fatal_def split: sum.splits option.splits)

lemma addPackage_Inl:
  assumes "addPackage w pkgs gopts c st = Inl e"
  shows "fatal e"
proof -
  obtain g indexes errs where st: "st = (g, indexes, errs)" by (cases st)
  obtain g1 err where av: "addVertex g (OriginPackage c) = (g1, err)"
    by (cases "addVertex g (OriginPackage c)")
  note f = addVertex_failedOtherThan [OF av]
  from assms st av f show ?thesis
    by (auto simp: addPackage_def Let_def fatal_def split: prod.splits sum.splits if_splits
          dest: loadKeys_Inl [unfolded fatal_def])
qed

lemma buildLoop_Inl: "buildLoop w pkgs gopts cs st = Inl e \<Longrightarrow> fatal e"
  by (induction cs arbitrary: st) (auto split: sum.splits dest: addPackage_Inl)

lemma addSubpackageVersions_grows:
  "errs \<noteq> [] \<Longrightarrow> snd (addSubpackageVersions c vs (g, errs)) \<noteq> []"
proof -
  obtain g' es where r: "addSubpackageVersions c vs (g, []) = (g', es)"
    by (cases "addSubpackageVersions c vs (g, [])")
  from addSubpackageVersions_prepend [OF r, of errs] show "errs \<noteq> [] \<Longrightarrow> ?thesis" by simp
qed

lemma addSubpackages_grows:
  "errs \<noteq> [] \<Longrightarrow> snd (addSubpackages pkgs c names (g, errs)) \<noteq> []"
proof -
  obtain g' es where r: "addSubpackages pkgs c names (g, []) = (g', es)"
    by (cases "addSubpackages pkgs c names (g, [])")
  from addSubpackages_prepend [OF r, of errs] show "errs \<noteq> [] \<Longrightarrow> ?thesis" by simp
qed

lemma addBuildDeps_grows:
  "errs \<noteq> [] \<Longrightarrow> snd (addBuildDeps sp resolver c lr deps (g, errs)) \<noteq> []"
proof -
  obtain g' es where r: "addBuildDeps sp resolver c lr deps (g, []) = (g', es)"
    by (cases "addBuildDeps sp resolver c lr deps (g, [])")
  from addBuildDeps_prepend [OF r, of errs] show "errs \<noteq> [] \<Longrightarrow> ?thesis" by simp
qed

lemma addBuildDeps_empty_name:
  "[] \<in> set deps \<Longrightarrow> snd (addBuildDeps sp resolver c lr deps (g, errs)) \<noteq> []"
proof (induction deps arbitrary: g errs)
  case Nil
  then show ?case by simp
next
  case (Cons d deps)
  show ?case
  proof (cases "d = []")
    case True
    then show ?thesis by (simp add: addBuildDeps_grows)
  next
    case False
    with Cons.prems have "[] \<in> set deps" by auto
    note ih = Cons.IH [OF this]
    from False show ?thesis
      by (auto simp: ih split: prod.splits option.splits)
  qed
qed

lemma addPackage_records:
  assumes "addPackage w pkgs gopts c (g, indexes, errs) = Inr (g', indexes', es)"
      and "errs \<noteq> [] \<or> [] \<in> set (EnvPackages c)"
  shows "es \<noteq> []"
proof -
  obtain g1 err where av: "addVertex g (OriginPackage c) = (g1, err)"
    by (cases "addVertex g (OriginPackage c)")
  note f = addVertex_failedOtherThan [OF av]
  obtain g2 errs2 where sb: "addSubpackages pkgs c (Subpackages c) (g1, errs) = (g2, errs2)"
    by (cases "addSubpackages pkgs c (Subpackages c) (g1, errs)")
  from assms(1) av f sb obtain sp resolver lr where
    bd: "addBuildDeps sp resolver c lr (EnvPackages c) (g2, errs2) = (g', es)"
    by (auto simp: addPackage_def Let_def split: prod.splits sum.splits if_splits)
  from assms(2) show ?thesis
  proof
    assume "errs \<noteq> []"
    then have "errs2 \<noteq> []" using addSubpackages_grows [of errs pkgs c "Subpackages c" g1] sb by simp
    then show ?thesis using addBuildDeps_grows [of errs2 sp resolver c lr "EnvPackages c" g2] bd by simp
  next
    assume "[] \<in> set (EnvPackages c)"
    then show ?thesis using addBuildDeps_empty_name [of "EnvPackages c" sp resolver c lr g2 errs2] bd
      by simp
  qed
qed

lemma buildLoop_records:
  "buildLoop w pkgs gopts cs (g, indexes, errs) = Inr (g', indexes', es) \<Longrightarrow>
     errs \<noteq> [] \<or> (\<exists>c \<in> set cs. [] \<in> set (EnvPackages c)) \<Longrightarrow> es \<noteq> []"
proof (induction cs arbitrary: g indexes errs)
  case Nil
  then show ?case by simp
next
  case (Cons c cs)
  from Cons.prems(1) obtain g1 ix1 es1 where
    a: "addPackage w pkgs gopts c (g, indexes, errs) = Inr (g1, ix1, es1)"
    and b: "buildLoop w pkgs gopts cs (g1, ix1, es1) = Inr (g', indexes', es)"
    by (auto split: sum.splits)
  show ?case
  proof (cases "errs \<noteq> [] \<or> [] \<in> set (EnvPackages c)")
    case True
    from addPackage_records [OF a True] have "es1 \<noteq> []" .
    then show ?thesis using Cons.IH [OF b] by simp
  next
    case False
    with Cons.prems(2) have "\<exists>c \<in> set cs. [] \<in> set (EnvPackages c)" by auto
    then show ?thesis using Cons.IH [OF b] by simp
  qed
qed

lemma addAppropriatePackage_unresolved:
  assumes "\<not> allowUnresolved (opts g)"
      and "case resolver d of Inl e \<Rightarrow> True | Inr rs \<Rightarrow> rs = []"
  shows "addAppropriatePackage resolver g c d lr =
           (g, None, Some (case resolver d of
                             Inl e \<Rightarrow> Wrap ''unable to resolve dependency'' e
                           | Inr rs \<Rightarrow> Errorf ''unable to resolve dependency''))"
  using assms by (simp add: addAppropriatePackage_def)

lemma scanResolved_all_skipped:
  "\<forall>r \<in> set rs. candVersion r = Version c \<and> d = Name c \<Longrightarrow>
     scanResolved d c lr rs g pkg ct = Inr (g, pkg, ct)"
  by (induction rs) (simp_all add: scanResolved_skip)

lemma addAppropriatePackage_unfulfilled:
  assumes "\<not> allowUnresolved (opts g)" and "resolver d = Inr rs" and "rs \<noteq> []"
      and "\<forall>r \<in> set rs. candVersion r = Version c \<and> d = Name c"
  shows "addAppropriatePackage resolver g c d lr = (g, None, Some (Errorf ''unfulfilled dependency''))"
  using assms by (simp add: addAppropriatePackage_def scanResolved_all_skipped)

lemma addBuildDeps_step:
  "addBuildDeps sp resolver c lr (d # ds) (g, errs) =
     addBuildDeps sp resolver c lr ds (addBuildDeps sp resolver c lr [d] (g, errs))"
  by (simp split: prod.splits option.splits)

lemma addBuildDeps_append:
  "addBuildDeps sp resolver c lr (ds1 @ ds2) (g, errs) =
     addBuildDeps sp resolver c lr ds2 (addBuildDeps sp resolver c lr ds1 (g, errs))"
proof (induction ds1 arbitrary: g errs)
  case Nil
  show ?case by simp
next
  case (Cons d ds1)
  obtain g1 es1 where s: "addBuildDeps sp resolver c lr [d] (g, errs) = (g1, es1)"
    by (cases "addBuildDeps sp resolver c lr [d] (g, errs)")
  have "addBuildDeps sp resolver c lr ((d # ds1) @ ds2) (g, errs)
      = addBuildDeps sp resolver c lr (ds1 @ ds2) (g1, es1)"
    using addBuildDeps_step [of sp resolver c lr d "ds1 @ ds2" g errs] s by simp
  also have "\<dots> = addBuildDeps sp resolver c lr ds2 (addBuildDeps sp resolver c lr ds1 (g1, es1))"
    by (rule Cons.IH)
  also have "addBuildDeps sp resolver c lr ds1 (g1, es1) = addBuildDeps sp resolver c lr (d # ds1) (g, errs)"
    using addBuildDeps_step [of sp resolver c lr d ds1 g errs] s by simp
  finally show ?case .
qed

lemma addBuildDeps_prefix:
  "\<exists>more. snd (addBuildDeps sp resolver c lr ds (g, errs)) = errs @ more"
proof -
  obtain g' es where r: "addBuildDeps sp resolver c lr ds (g, []) = (g', es)"
    by (cases "addBuildDeps sp resolver c lr ds (g, [])")
  from addBuildDeps_prepend [OF r, of errs] show ?thesis by simp
qed

lemma addBuildDeps_records:
  assumes a: "addBuildDeps sp resolver c lr ds1 (g, errs) = (ga, ea)"
  shows "d = [] \<Longrightarrow>
           addBuildDeps sp resolver c lr (ds1 @ d # ds2) (g, errs)
             = addBuildDeps sp resolver c lr ds2
                 (ga, ea @ [Errorf ''empty package name in environment packages''])"
    and "d \<noteq> [] \<Longrightarrow> addAppropriatePackage resolver ga (OriginPackage c) d lr = (gb, cyc, Some e) \<Longrightarrow>
           addBuildDeps sp resolver c lr (ds1 @ d # ds2) (g, errs)
             = addBuildDeps sp resolver c lr ds2 (gb, ea @ [e])"
    and "d \<noteq> [] \<Longrightarrow> addAppropriatePackage resolver ga (OriginPackage c) d lr = (gb, Some cy, None) \<Longrightarrow>
           resolveCycle sp resolver gb cy d lr = (gc, Some e) \<Longrightarrow>
           addBuildDeps sp resolver c lr (ds1 @ d # ds2) (g, errs)
             = addBuildDeps sp resolver c lr ds2 (gc, ea @ [e])"
proof -
  note ap = addBuildDeps_append [of sp resolver c lr ds1 "d # ds2" g errs, unfolded a]
  show "d = [] \<Longrightarrow>
           addBuildDeps sp resolver c lr (ds1 @ d # ds2) (g, errs)
             = addBuildDeps sp resolver c lr ds2
                 (ga, ea @ [Errorf ''empty package name in environment packages''])"
    using ap by simp
  show "d \<noteq> [] \<Longrightarrow> addAppropriatePackage resolver ga (OriginPackage c) d lr = (gb, cyc, Some e) \<Longrightarrow>
           addBuildDeps sp resolver c lr (ds1 @ d # ds2) (g, errs)
             = addBuildDeps sp resolver c lr ds2 (gb, ea @ [e])"
    using ap by (cases cyc) simp_all
  show "d \<noteq> [] \<Longrightarrow> addAppropriatePackage resolver ga (OriginPackage c) d lr = (gb, Some cy, None) \<Longrightarrow>
           resolveCycle sp resolver gb cy d lr = (gc, Some e) \<Longrightarrow>
           addBuildDeps sp resolver c lr (ds1 @ d # ds2) (g, errs)
             = addBuildDeps sp resolver c lr ds2 (gc, ea @ [e])"
    using ap by simp
qed

lemma addPackage_Inr:
  assumes "addPackage w pkgs gopts c (g, indexes, errs) = Inr (g', indexes', es)"
  shows "\<exists>ixs. addBuildDeps (ShortestPath w)
                  (NewPkgResolver w (ixs @ [Repository w pkgs ''x86_64''])) c
                  (indexSource w (Repository w pkgs ''x86_64'')) (EnvPackages c)
                  (addSubpackages pkgs c (Subpackages c) (fst (addVertex g (OriginPackage c)), errs))
                = (g', es)"
proof -
  obtain g1 err where av: "addVertex g (OriginPackage c) = (g1, err)"
    by (cases "addVertex g (OriginPackage c)")
  note f = addVertex_failedOtherThan [OF av]
  obtain g2 errs2 where sb: "addSubpackages pkgs c (Subpackages c) (g1, errs) = (g2, errs2)"
    by (cases "addSubpackages pkgs c (Subpackages c) (g1, errs)")
  from assms av f sb show ?thesis
    by (auto simp: addPackage_def Let_def split: prod.splits sum.splits if_splits)
qed

lemma addSubpackages_prefix:
  "\<exists>more. snd (addSubpackages pkgs c names (g, errs)) = errs @ more"
proof -
  obtain g' es where r: "addSubpackages pkgs c names (g, []) = (g', es)"
    by (cases "addSubpackages pkgs c names (g, [])")
  from addSubpackages_prepend [OF r, of errs] show ?thesis by simp
qed

lemma addPackage_prefix:
  assumes "addPackage w pkgs gopts c (g, indexes, errs) = Inr (g', indexes', es)"
  shows "\<exists>more. es = errs @ more"
proof -
  from addPackage_Inr [OF assms] obtain ixs where
    b: "addBuildDeps (ShortestPath w)
                  (NewPkgResolver w (ixs @ [Repository w pkgs ''x86_64''])) c
                  (indexSource w (Repository w pkgs ''x86_64'')) (EnvPackages c)
                  (addSubpackages pkgs c (Subpackages c) (fst (addVertex g (OriginPackage c)), errs))
                = (g', es)" ..
  obtain g2 errs2 where sb:
    "addSubpackages pkgs c (Subpackages c) (fst (addVertex g (OriginPackage c)), errs) = (g2, errs2)"
    by (cases "addSubpackages pkgs c (Subpackages c) (fst (addVertex g (OriginPackage c)), errs)")
  from addSubpackages_prefix [of pkgs c "Subpackages c" "fst (addVertex g (OriginPackage c))" errs] sb
  obtain m1 where m1: "errs2 = errs @ m1" by auto
  from addBuildDeps_prefix [of _ _ c _ "EnvPackages c" g2 errs2] b sb
  obtain m2 where "es = errs2 @ m2" by (metis snd_conv)
  with m1 show ?thesis by simp
qed

lemma buildLoop_prefix:
  "buildLoop w pkgs gopts cs (g, indexes, errs) = Inr (g', indexes', es) \<Longrightarrow> \<exists>more. es = errs @ more"
proof (induction cs arbitrary: g indexes errs)
  case Nil
  then show ?case by simp
next
  case (Cons c cs)
  from Cons.prems obtain g1 ix1 es1 where
    a: "addPackage w pkgs gopts c (g, indexes, errs) = Inr (g1, ix1, es1)"
    and b: "buildLoop w pkgs gopts cs (g1, ix1, es1) = Inr (g', indexes', es)"
    by (auto split: sum.splits)
  from addPackage_prefix [OF a] Cons.IH [OF b] show ?case by auto
qed

lemma buildLoop_append:
  "buildLoop w pkgs gopts (cs1 @ cs2) st =
     (case buildLoop w pkgs gopts cs1 st of
        Inl e \<Rightarrow> Inl e
      | Inr st1 \<Rightarrow> buildLoop w pkgs gopts cs2 st1)"
  by (induction cs1 arbitrary: st) (simp_all split: sum.splits)

lemma buildLoop_continues:
  assumes "buildLoop w pkgs gopts cs1 st = Inr st1" and "addPackage w pkgs gopts c st1 = Inr st2"
  shows "buildLoop w pkgs gopts (cs1 @ c # cs2) st = buildLoop w pkgs gopts cs2 st2"
  using assms by (simp add: buildLoop_append)

lemma addAppropriatePackage_resolved:
  assumes a: "addAppropriatePackage resolver g c d lr = (g', cyc, None)"
      and s: "\<not> allowUnresolved (opts g)"
  shows "\<exists>rs. resolver d = Inr rs \<and> (\<exists>r \<in> set rs. \<not> (candVersion r = Version c \<and> d = Name c))"
proof (cases "resolver d")
  case (Inl e)
  then have "case resolver d of Inl e \<Rightarrow> True | Inr rs \<Rightarrow> rs = []" by simp
  from addAppropriatePackage_unresolved [where resolver = resolver and d = d and g = g and c = c
      and lr = lr, OF s this] a
  show ?thesis by simp
next
  case (Inr rs)
  show ?thesis
  proof (rule ccontr)
    assume n: "\<not> ?thesis"
    with Inr have all: "\<forall>r \<in> set rs. candVersion r = Version c \<and> d = Name c" by auto
    show False
    proof (cases "rs = []")
      case True
      with Inr have "case resolver d of Inl e \<Rightarrow> True | Inr rs \<Rightarrow> rs = []" by simp
      from addAppropriatePackage_unresolved [where resolver = resolver and d = d and g = g and c = c
          and lr = lr, OF s this] a
      show False by simp
    next
      case False
      from addAppropriatePackage_unfulfilled [where resolver = resolver and d = d and g = g and c = c
          and lr = lr and rs = rs, OF s Inr False all] a
      show False by simp
    qed
  qed
qed

lemma addBuildDeps_no_error:
  assumes "addBuildDeps sp resolver c lr deps (g, errs) = (g', [])"
      and "\<not> allowUnresolved (opts g)"
  shows "\<forall>d \<in> set deps. d \<noteq> [] \<and>
           (\<exists>rs. resolver d = Inr rs \<and> (\<exists>r \<in> set rs. \<not> (candVersion r = cfgVersion c \<and> d = cfgName c)))"
  using assms
proof (induction deps arbitrary: g errs)
  case Nil
  show ?case by simp
next
  case (Cons d deps)
  obtain g1 es1 where s: "addBuildDeps sp resolver c lr [d] (g, errs) = (g1, es1)"
    by (cases "addBuildDeps sp resolver c lr [d] (g, errs)")
  from Cons.prems(1) s addBuildDeps_step [of sp resolver c lr d deps g errs]
  have r: "addBuildDeps sp resolver c lr deps (g1, es1) = (g', [])" by simp
  from addBuildDeps_prefix [of sp resolver c lr deps g1 es1] r have e1: "es1 = []" by simp
  from addBuildDeps_prefix [of sp resolver c lr "[d]" g errs] s e1 have e0: "errs = []" by simp
  from addBuildDeps_keeps [OF s] Cons.prems(2) have o: "\<not> allowUnresolved (opts g1)"
    by (simp add: keeps_def)
  note ih = Cons.IH [OF r o]
  have ne: "d \<noteq> []"
  proof
    assume "d = []"
    with s have "es1 = errs @ [Errorf ''empty package name in environment packages'']" by simp
    with e1 show False by simp
  qed
  obtain ga cyc eo where ap: "addAppropriatePackage resolver g (OriginPackage c) d lr = (ga, cyc, eo)"
    by (cases "addAppropriatePackage resolver g (OriginPackage c) d lr")
  have "eo = None"
  proof (cases eo)
    case (Some e)
    with s ne ap have "es1 = errs @ [e]" by (cases cyc) simp_all
    with e1 show ?thesis by simp
  qed simp
  with ap have "addAppropriatePackage resolver g (OriginPackage c) d lr = (ga, cyc, None)" by simp
  from addAppropriatePackage_resolved [OF this Cons.prems(2)]
  have "\<exists>rs. resolver d = Inr rs \<and> (\<exists>r \<in> set rs. \<not> (candVersion r = cfgVersion c \<and> d = cfgName c))"
    by simp
  with ne ih show ?case by simp
qed

lemma addPackage_no_error:
  assumes a: "addPackage w pkgs gopts c (g, indexes, errs) = Inr (g', indexes', [])"
      and s: "\<not> allowUnresolved (opts g)"
  shows "\<forall>d \<in> set (EnvPackages c). d \<noteq> [] \<and>
           (\<exists>ixs rs. NewPkgResolver w ixs d = Inr rs
              \<and> (\<exists>r \<in> set rs. \<not> (candVersion r = cfgVersion c \<and> d = cfgName c)))"
proof -
  from addPackage_Inr [OF a] obtain ixs where
    b: "addBuildDeps (ShortestPath w)
                  (NewPkgResolver w (ixs @ [Repository w pkgs ''x86_64''])) c
                  (indexSource w (Repository w pkgs ''x86_64'')) (EnvPackages c)
                  (addSubpackages pkgs c (Subpackages c) (fst (addVertex g (OriginPackage c)), errs))
                = (g', [])" ..
  obtain g2 errs2 where sb:
    "addSubpackages pkgs c (Subpackages c) (fst (addVertex g (OriginPackage c)), errs) = (g2, errs2)"
    by (cases "addSubpackages pkgs c (Subpackages c) (fst (addVertex g (OriginPackage c)), errs)")
  from keeps_trans [OF addVertex_keeps_fst addSubpackages_keeps [OF sb]] s
  have o: "\<not> allowUnresolved (opts g2)" by (simp add: keeps_def)
  note r = addBuildDeps_no_error [OF b [unfolded sb] o]
  show ?thesis
  proof (intro ballI conjI)
    fix d
    assume d: "d \<in> set (EnvPackages c)"
    note rd = bspec [OF r d]
    from rd show "d \<noteq> []" by (rule conjunct1)
    from rd [THEN conjunct2] obtain rs where
      "NewPkgResolver w (ixs @ [Repository w pkgs ''x86_64'']) d = Inr rs"
      and "\<exists>r \<in> set rs. \<not> (candVersion r = cfgVersion c \<and> d = cfgName c)"
      by (elim exE conjE)
    then show "\<exists>ixs rs. NewPkgResolver w ixs d = Inr rs
              \<and> (\<exists>r \<in> set rs. \<not> (candVersion r = cfgVersion c \<and> d = cfgName c))"
      by (intro exI [of _ "ixs @ [Repository w pkgs ''x86_64'']"] exI [of _ rs] conjI)
  qed
qed

lemma buildLoop_no_error:
  assumes "buildLoop w pkgs gopts cs (g, indexes, errs) = Inr (g', indexes', [])"
      and "\<not> allowUnresolved (opts g)"
  shows "\<forall>c \<in> set cs. \<forall>d \<in> set (EnvPackages c). d \<noteq> [] \<and>
           (\<exists>ixs rs. NewPkgResolver w ixs d = Inr rs
              \<and> (\<exists>r \<in> set rs. \<not> (candVersion r = cfgVersion c \<and> d = cfgName c)))"
  using assms
proof (induction cs arbitrary: g indexes errs)
  case Nil
  show ?case by simp
next
  case (Cons c cs)
  from Cons.prems(1) obtain g1 ix1 es1 where
    a: "addPackage w pkgs gopts c (g, indexes, errs) = Inr (g1, ix1, es1)"
    and b: "buildLoop w pkgs gopts cs (g1, ix1, es1) = Inr (g', indexes', [])"
    by (auto split: sum.splits)
  from buildLoop_prefix [OF b] have e1: "es1 = []" by simp
  from addPackage_keeps [OF a] Cons.prems(2) have o: "\<not> allowUnresolved (opts g1)"
    by (simp add: keeps_def)
  from addPackage_no_error [OF a [unfolded e1] Cons.prems(2)] Cons.IH [OF b o]
  show ?case by simp
qed

lemma NewGraph_no_error:
  assumes a: "NewGraph w pkgs options = Inr g'" and s: "\<not> allowUnresolved (opts g')"
  shows "\<forall>c \<in> set (Packages pkgs). \<forall>d \<in> set (EnvPackages c). d \<noteq> [] \<and>
           (\<exists>ixs rs. NewPkgResolver w ixs d = Inr rs
              \<and> (\<exists>r \<in> set rs. \<not> (candVersion r = cfgVersion c \<and> d = cfgName c)))"
proof -
  from a obtain gopts' indexes' where
    b: "buildLoop w pkgs gopts' (Packages pkgs)
       (\<lparr>Graph = newGraph, packages = pkgs, opts = gopts', byName = (\<lambda>name. [])\<rparr>, Map.empty, [])
     = Inr (g', indexes', [])"
    by (auto simp: NewGraph_def Let_def split: sum.splits if_splits)
  from buildLoop_keeps [OF b] s
  have "\<not> allowUnresolved (opts \<lparr>Graph = newGraph, packages = pkgs, opts = gopts', byName = (\<lambda>name. [])\<rparr>)"
    by (simp add: keeps_def)
  from buildLoop_no_error [OF b this] show ?thesis .
qed

text \<open>
  C7. The errors of the packages are accumulated. In the loop over the dependencies of a
  package, at any position, an empty name, an error of \<^verbatim>\<open>addAppropriatePackage\<close> and
  an error of \<^verbatim>\<open>resolveCycle\<close> (a cycle that one rotation does not repair) are each
  appended to the errors recorded so far, and the loop goes on with the dependencies that
  follow. \<^verbatim>\<open>addAppropriatePackage\<close> returns an error for a name that does not resolve
  and for a name all of whose candidates are skipped, unless unresolved dependencies are
  allowed. The loop over the packages goes on after a package whatever errors it recorded:
  what it does does not depend on the errors recorded so far, which stay in front of the
  later ones, and only a failure to get key material or to load the repositories ends it
  at once. \<^verbatim>\<open>NewGraph\<close> returns a graph only when the loop ran to its end with no
  error recorded: so with no empty dependency name in any package and, when unresolved
  dependencies are not allowed, with every dependency name resolved to a candidate that is
  not skipped. When the loop ran to its end with errors recorded, \<^verbatim>\<open>NewGraph\<close> returns
  no graph and the one error that joins them.
\<close>

theorem NewGraph_accumulates_errors:
  "buildLoop w pkgs gopts cs (g, indexes, pre @ errs)
     = withEarlier pre (buildLoop w pkgs gopts cs (g, indexes, errs))
   \<and> (buildLoop w pkgs gopts cs st = Inl e \<longrightarrow> fatal e)
   \<and> (NewGraph w pkgs options = Inr g' \<longrightarrow>
        (\<exists>gopts' indexes'.
           applyOptions options \<lparr>allowUnresolved = False, repos = [], keys = []\<rparr> = Inr gopts'
           \<and> buildLoop w pkgs gopts' (Packages pkgs)
                (\<lparr>Graph = newGraph, packages = pkgs, opts = gopts', byName = (\<lambda>name. [])\<rparr>, Map.empty, [])
               = Inr (g', indexes', []))
        \<and> (\<forall>c \<in> set (Packages pkgs). [] \<notin> set (EnvPackages c)))
   \<and> (applyOptions options \<lparr>allowUnresolved = False, repos = [], keys = []\<rparr> = Inr gopts
        \<and> buildLoop w pkgs gopts (Packages pkgs)
             (\<lparr>Graph = newGraph, packages = pkgs, opts = gopts, byName = (\<lambda>name. [])\<rparr>, Map.empty, [])
            = Inr (g1, indexes1, es)
        \<and> es \<noteq> []
        \<longrightarrow> NewGraph w pkgs options = Inl (Wrap ''unable to build graph'' (Join es)))
   \<and> (addBuildDeps sp resolver c lr ds1 (ga0, errs0) = (ga, ea) \<longrightarrow>
        (\<exists>more. ea = errs0 @ more)
        \<and> (d = [] \<longrightarrow>
             addBuildDeps sp resolver c lr (ds1 @ d # ds2) (ga0, errs0)
               = addBuildDeps sp resolver c lr ds2
                   (ga, ea @ [Errorf ''empty package name in environment packages'']))
        \<and> (d \<noteq> [] \<and> addAppropriatePackage resolver ga (OriginPackage c) d lr = (gb, cyc, Some e1) \<longrightarrow>
             addBuildDeps sp resolver c lr (ds1 @ d # ds2) (ga0, errs0)
               = addBuildDeps sp resolver c lr ds2 (gb, ea @ [e1]))
        \<and> (d \<noteq> [] \<and> addAppropriatePackage resolver ga (OriginPackage c) d lr = (gb, Some cy, None)
              \<and> resolveCycle sp resolver gb cy d lr = (gc, Some e2) \<longrightarrow>
             addBuildDeps sp resolver c lr (ds1 @ d # ds2) (ga0, errs0)
               = addBuildDeps sp resolver c lr ds2 (gc, ea @ [e2])))
   \<and> (\<not> allowUnresolved (opts gu) \<and> (case resolver d of Inl e \<Rightarrow> True | Inr rs \<Rightarrow> rs = []) \<longrightarrow>
        addAppropriatePackage resolver gu p d lr =
          (gu, None, Some (case resolver d of
                             Inl e \<Rightarrow> Wrap ''unable to resolve dependency'' e
                           | Inr rs \<Rightarrow> Errorf ''unable to resolve dependency'')))
   \<and> (\<not> allowUnresolved (opts gu) \<and> resolver d = Inr rs \<and> rs \<noteq> []
        \<and> (\<forall>r \<in> set rs. candVersion r = Version p \<and> d = Name p) \<longrightarrow>
        addAppropriatePackage resolver gu p d lr = (gu, None, Some (Errorf ''unfulfilled dependency'')))
   \<and> (buildLoop w pkgs gopts cs1 st = Inr st1 \<and> addPackage w pkgs gopts c st1 = Inr st2 \<longrightarrow>
        buildLoop w pkgs gopts (cs1 @ c # cs2) st = buildLoop w pkgs gopts cs2 st2)
   \<and> (addPackage w pkgs gopts c (g, indexes, errs) = Inr (g2, indexes2, es2) \<longrightarrow>
        (\<exists>more. es2 = errs @ more)
        \<and> (\<exists>ixs. addBuildDeps (ShortestPath w)
                    (NewPkgResolver w (ixs @ [Repository w pkgs ''x86_64''])) c
                    (indexSource w (Repository w pkgs ''x86_64'')) (EnvPackages c)
                    (addSubpackages pkgs c (Subpackages c) (fst (addVertex g (OriginPackage c)), errs))
                  = (g2, es2)))
   \<and> (NewGraph w pkgs options = Inr g' \<and> \<not> allowUnresolved (opts g') \<longrightarrow>
        (\<forall>c \<in> set (Packages pkgs). \<forall>d \<in> set (EnvPackages c). d \<noteq> [] \<and>
           (\<exists>ixs rs. NewPkgResolver w ixs d = Inr rs
              \<and> (\<exists>r \<in> set rs. \<not> (candVersion r = cfgVersion c \<and> d = cfgName c)))))"
proof -
  have 1: "buildLoop w pkgs gopts cs (g, indexes, pre @ errs)
     = withEarlier pre (buildLoop w pkgs gopts cs (g, indexes, errs))"
    by (rule buildLoop_prepend)
  have 2: "buildLoop w pkgs gopts cs st = Inl e \<longrightarrow> fatal e"
    using buildLoop_Inl by blast
  have 3: "NewGraph w pkgs options = Inr g' \<longrightarrow>
        (\<exists>gopts' indexes'.
           applyOptions options \<lparr>allowUnresolved = False, repos = [], keys = []\<rparr> = Inr gopts'
           \<and> buildLoop w pkgs gopts' (Packages pkgs)
                (\<lparr>Graph = newGraph, packages = pkgs, opts = gopts', byName = (\<lambda>name. [])\<rparr>, Map.empty, [])
               = Inr (g', indexes', []))
        \<and> (\<forall>c \<in> set (Packages pkgs). [] \<notin> set (EnvPackages c))"
  proof (intro impI conjI)
    assume a: "NewGraph w pkgs options = Inr g'"
    then obtain gopts' indexes' where
      o: "applyOptions options \<lparr>allowUnresolved = False, repos = [], keys = []\<rparr> = Inr gopts'"
      and b: "buildLoop w pkgs gopts' (Packages pkgs)
         (\<lparr>Graph = newGraph, packages = pkgs, opts = gopts', byName = (\<lambda>name. [])\<rparr>, Map.empty, [])
       = Inr (g', indexes', [])"
      by (auto simp: NewGraph_def Let_def split: sum.splits if_splits)
    from o b show "\<exists>gopts' indexes'.
           applyOptions options \<lparr>allowUnresolved = False, repos = [], keys = []\<rparr> = Inr gopts'
           \<and> buildLoop w pkgs gopts' (Packages pkgs)
                (\<lparr>Graph = newGraph, packages = pkgs, opts = gopts', byName = (\<lambda>name. [])\<rparr>, Map.empty, [])
               = Inr (g', indexes', [])"
      by blast
    from buildLoop_records [OF b] show "\<forall>c \<in> set (Packages pkgs). [] \<notin> set (EnvPackages c)"
      by blast
  qed
  have 4: "applyOptions options \<lparr>allowUnresolved = False, repos = [], keys = []\<rparr> = Inr gopts
        \<and> buildLoop w pkgs gopts (Packages pkgs)
             (\<lparr>Graph = newGraph, packages = pkgs, opts = gopts, byName = (\<lambda>name. [])\<rparr>, Map.empty, [])
            = Inr (g1, indexes1, es)
        \<and> es \<noteq> []
        \<longrightarrow> NewGraph w pkgs options = Inl (Wrap ''unable to build graph'' (Join es))"
    by (simp add: NewGraph_def Let_def)
  have 5: "addBuildDeps sp resolver c lr ds1 (ga0, errs0) = (ga, ea) \<longrightarrow>
        (\<exists>more. ea = errs0 @ more)
        \<and> (d = [] \<longrightarrow>
             addBuildDeps sp resolver c lr (ds1 @ d # ds2) (ga0, errs0)
               = addBuildDeps sp resolver c lr ds2
                   (ga, ea @ [Errorf ''empty package name in environment packages'']))
        \<and> (d \<noteq> [] \<and> addAppropriatePackage resolver ga (OriginPackage c) d lr = (gb, cyc, Some e1) \<longrightarrow>
             addBuildDeps sp resolver c lr (ds1 @ d # ds2) (ga0, errs0)
               = addBuildDeps sp resolver c lr ds2 (gb, ea @ [e1]))
        \<and> (d \<noteq> [] \<and> addAppropriatePackage resolver ga (OriginPackage c) d lr = (gb, Some cy, None)
              \<and> resolveCycle sp resolver gb cy d lr = (gc, Some e2) \<longrightarrow>
             addBuildDeps sp resolver c lr (ds1 @ d # ds2) (ga0, errs0)
               = addBuildDeps sp resolver c lr ds2 (gc, ea @ [e2]))"
  proof (intro impI conjI)
    assume a: "addBuildDeps sp resolver c lr ds1 (ga0, errs0) = (ga, ea)"
    from addBuildDeps_prefix [of sp resolver c lr ds1 ga0 errs0] a
    show "\<exists>more. ea = errs0 @ more" by simp
    note r = addBuildDeps_records [OF a]
    show "addBuildDeps sp resolver c lr (ds1 @ d # ds2) (ga0, errs0)
               = addBuildDeps sp resolver c lr ds2
                   (ga, ea @ [Errorf ''empty package name in environment packages''])" if "d = []"
      using that by (rule r(1))
    show "addBuildDeps sp resolver c lr (ds1 @ d # ds2) (ga0, errs0)
               = addBuildDeps sp resolver c lr ds2 (gb, ea @ [e1])"
      if "d \<noteq> [] \<and> addAppropriatePackage resolver ga (OriginPackage c) d lr = (gb, cyc, Some e1)"
      using that r(2) by blast
    show "addBuildDeps sp resolver c lr (ds1 @ d # ds2) (ga0, errs0)
               = addBuildDeps sp resolver c lr ds2 (gc, ea @ [e2])"
      if "d \<noteq> [] \<and> addAppropriatePackage resolver ga (OriginPackage c) d lr = (gb, Some cy, None)
              \<and> resolveCycle sp resolver gb cy d lr = (gc, Some e2)"
      using that r(3) by blast
  qed
  have 6: "\<not> allowUnresolved (opts gu) \<and> (case resolver d of Inl e \<Rightarrow> True | Inr rs \<Rightarrow> rs = []) \<longrightarrow>
        addAppropriatePackage resolver gu p d lr =
          (gu, None, Some (case resolver d of
                             Inl e \<Rightarrow> Wrap ''unable to resolve dependency'' e
                           | Inr rs \<Rightarrow> Errorf ''unable to resolve dependency''))"
    by (simp add: addAppropriatePackage_def)
  have 7: "\<not> allowUnresolved (opts gu) \<and> resolver d = Inr rs \<and> rs \<noteq> []
        \<and> (\<forall>r \<in> set rs. candVersion r = Version p \<and> d = Name p) \<longrightarrow>
        addAppropriatePackage resolver gu p d lr = (gu, None, Some (Errorf ''unfulfilled dependency''))"
    by (simp add: addAppropriatePackage_def scanResolved_all_skipped)
  have 8: "buildLoop w pkgs gopts cs1 st = Inr st1 \<and> addPackage w pkgs gopts c st1 = Inr st2 \<longrightarrow>
        buildLoop w pkgs gopts (cs1 @ c # cs2) st = buildLoop w pkgs gopts cs2 st2"
    by (simp add: buildLoop_append)
  have 9: "addPackage w pkgs gopts c (g, indexes, errs) = Inr (g2, indexes2, es2) \<longrightarrow>
        (\<exists>more. es2 = errs @ more)
        \<and> (\<exists>ixs. addBuildDeps (ShortestPath w)
                    (NewPkgResolver w (ixs @ [Repository w pkgs ''x86_64''])) c
                    (indexSource w (Repository w pkgs ''x86_64'')) (EnvPackages c)
                    (addSubpackages pkgs c (Subpackages c) (fst (addVertex g (OriginPackage c)), errs))
                  = (g2, es2))"
  proof (intro impI conjI)
    assume a: "addPackage w pkgs gopts c (g, indexes, errs) = Inr (g2, indexes2, es2)"
    from a show "\<exists>more. es2 = errs @ more" by (rule addPackage_prefix)
    from a show "\<exists>ixs. addBuildDeps (ShortestPath w)
                    (NewPkgResolver w (ixs @ [Repository w pkgs ''x86_64''])) c
                    (indexSource w (Repository w pkgs ''x86_64'')) (EnvPackages c)
                    (addSubpackages pkgs c (Subpackages c) (fst (addVertex g (OriginPackage c)), errs))
                  = (g2, es2)"
      by (rule addPackage_Inr)
  qed
  have 10: "NewGraph w pkgs options = Inr g' \<and> \<not> allowUnresolved (opts g') \<longrightarrow>
        (\<forall>c \<in> set (Packages pkgs). \<forall>d \<in> set (EnvPackages c). d \<noteq> [] \<and>
           (\<exists>ixs rs. NewPkgResolver w ixs d = Inr rs
              \<and> (\<exists>r \<in> set rs. \<not> (candVersion r = cfgVersion c \<and> d = cfgName c))))"
  proof
    assume "NewGraph w pkgs options = Inr g' \<and> \<not> allowUnresolved (opts g')"
    then have "NewGraph w pkgs options = Inr g'" and "\<not> allowUnresolved (opts g')" by simp_all
    then show "\<forall>c \<in> set (Packages pkgs). \<forall>d \<in> set (EnvPackages c). d \<noteq> [] \<and>
           (\<exists>ixs rs. NewPkgResolver w ixs d = Inr rs
              \<and> (\<exists>r \<in> set rs. \<not> (candVersion r = cfgVersion c \<and> d = cfgName c)))"
      by (rule NewGraph_no_error)
  qed
  from 1 2 3 4 5 6 7 8 9 10 show ?thesis by (intro conjI)
qed

text \<open>
  More origin packages: \<open>e\<close> has an empty dependency name, \<open>k\<close> declares a key, and
  \<open>x\<close>, named \<open>a\<close>, has an empty dependency name, a name that nothing provides, its own
  name, and \<open>b\<close>. In \<open>localWorld\<close> the resolver knows the local packages only.
\<close>

definition pkgE :: configuration where
  "pkgE = \<lparr>cfgName = ''e'', cfgVersion = ''1-r0'', fullVersion = ''1-r0'', Subpackages = [],
           Repositories = [], Keyring = [], EnvPackages = [[]]\<rparr>"

definition pkgK :: configuration where
  "pkgK = \<lparr>cfgName = ''k'', cfgVersion = ''1-r0'', fullVersion = ''1-r0'', Subpackages = [],
           Repositories = [], Keyring = [''/keys/melange.rsa.pub''], EnvPackages = []\<rparr>"

definition pkgX :: configuration where
  "pkgX = \<lparr>cfgName = ''a'', cfgVersion = ''1-r0'', fullVersion = ''1-r0'', Subpackages = [],
           Repositories = [], Keyring = [], EnvPackages = [[], ''zzz'', ''a'', ''b'']\<rparr>"

definition storeOf :: "configuration list \<Rightarrow> Packages" where
  "storeOf cs = \<lparr>Packages = cs, Config = (\<lambda>name. filter (\<lambda>c. cfgName c = name) cs)\<rparr>"

definition localWorld :: "string collaborators" where
  "localWorld = world\<lparr>NewPkgResolver := (\<lambda>indexes. localResolver)\<rparr>"

lemmas example_defs5 = example_defs4 pkgE_def pkgK_def pkgX_def storeOf_def refusingWorld_def
  localWorld_def fatal_def

text \<open>
  One run with an error of each kind. Package \<open>x\<close> records the empty name, the name that
  does not resolve and the dependency on itself that no candidate fulfils, and still gets
  its edge to \<open>b\<close>; package \<open>b\<close> then closes a cycle that one rotation does not repair.
  The four errors come back joined. A key that cannot be read ends the loop at once, and
  the error recorded for \<open>e\<close> before is not returned.
\<close>

theorem NewGraph_accumulates_errors_witness:
  "NewGraph localWorld (storeOf [pkgX, pkgB]) []
     = Inl (Wrap ''unable to build graph''
             (Join [Errorf ''empty package name in environment packages'',
                    Errorf ''unable to resolve dependency'',
                    Errorf ''unfulfilled dependency'',
                    Errorf ''unable re-add original edge with new dep still causes cycle'']))
   \<and> NewGraph refusingWorld (storeOf [pkgE, pkgK]) []
       = Inl (Wrap ''failed to get key material''
               (Wrap ''failed to read repository'' (External ''permission denied'')))
   \<and> fatal (Wrap ''failed to get key material''
              (Wrap ''failed to read repository'' (External ''permission denied'')))
   \<and> NewGraph world twoPackages [] = Inr (projr (NewGraph world twoPackages []))
   \<and> [] \<notin> set (EnvPackages pkgA) \<and> [] \<notin> set (EnvPackages pkgB)
   \<and> (\<exists>ixs rs r. NewPkgResolver world ixs ''b'' = Inr rs \<and> r \<in> set rs)
   \<and> addBuildDeps searchShortest localResolver pkgX ''local-index'' [[], ''zzz'', ''a'', ''b'']
         (fst (addVertex (emptyGraph (storeOf [pkgX, pkgB]) strict) (OriginPackage pkgX)), [])
       = addBuildDeps searchShortest localResolver pkgX ''local-index'' [''zzz'', ''a'', ''b'']
           (fst (addVertex (emptyGraph (storeOf [pkgX, pkgB]) strict) (OriginPackage pkgX)),
            [Errorf ''empty package name in environment packages''])
   \<and> addAppropriatePackage localResolver
         (fst (addVertex (emptyGraph (storeOf [pkgX, pkgB]) strict) (OriginPackage pkgX)))
         (OriginPackage pkgX) ''zzz'' ''local-index''
       = (fst (addVertex (emptyGraph (storeOf [pkgX, pkgB]) strict) (OriginPackage pkgX)), None,
          Some (Errorf ''unable to resolve dependency''))
   \<and> addAppropriatePackage localResolver
         (fst (addVertex (emptyGraph (storeOf [pkgX, pkgB]) strict) (OriginPackage pkgX)))
         (OriginPackage pkgX) ''a'' ''local-index''
       = (fst (addVertex (emptyGraph (storeOf [pkgX, pkgB]) strict) (OriginPackage pkgX)), None,
          Some (Errorf ''unfulfilled dependency''))
   \<and> addBuildDeps searchShortest localResolver pkgX ''local-index'' [[], ''zzz'', ''a'', ''b'']
         (fst (addVertex (emptyGraph (storeOf [pkgX, pkgB]) strict) (OriginPackage pkgX)), [])
       = addBuildDeps searchShortest localResolver pkgX ''local-index'' [''b'']
           (fst (addVertex (emptyGraph (storeOf [pkgX, pkgB]) strict) (OriginPackage pkgX)),
            [Errorf ''empty package name in environment packages'',
             Errorf ''unable to resolve dependency'',
             Errorf ''unfulfilled dependency''])
   \<and> snd (addBuildDeps searchShortest localResolver pkgB ''local-index'' [''a''] (beforeRepair, []))
       = [Errorf ''unable re-add original edge with new dep still causes cycle'']
   \<and> buildLoop localWorld (storeOf [pkgX, pkgB]) strict [pkgX, pkgB]
         (emptyGraph (storeOf [pkgX, pkgB]) strict, Map.empty, [])
       = buildLoop localWorld (storeOf [pkgX, pkgB]) strict [pkgB]
           (projr (addPackage localWorld (storeOf [pkgX, pkgB]) strict pkgX
                     (emptyGraph (storeOf [pkgX, pkgB]) strict, Map.empty, [])))
   \<and> (\<exists>ixs. snd (addBuildDeps (ShortestPath localWorld)
                    (NewPkgResolver localWorld (ixs @ [Repository localWorld (storeOf [pkgX, pkgB]) ''x86_64'']))
                    pkgX (indexSource localWorld (Repository localWorld (storeOf [pkgX, pkgB]) ''x86_64''))
                    (EnvPackages pkgX)
                    (addSubpackages (storeOf [pkgX, pkgB]) pkgX (Subpackages pkgX)
                       (fst (addVertex (emptyGraph (storeOf [pkgX, pkgB]) strict) (OriginPackage pkgX)), [])))
          = [Errorf ''empty package name in environment packages'',
             Errorf ''unable to resolve dependency'',
             Errorf ''unfulfilled dependency''])"
proof -
  let ?S = "storeOf [pkgX, pkgB]"
  let ?init = "\<lambda>pkgs. (\<lparr>Graph = newGraph, packages = pkgs, opts = strict, byName = (\<lambda>name. [])\<rparr>,
      Map.empty :: string \<rightharpoonup> string, [] :: error list)"
  let ?E1 = "Errorf ''empty package name in environment packages''"
  let ?E2 = "Errorf ''unable to resolve dependency''"
  let ?E3 = "Errorf ''unfulfilled dependency''"
  let ?E4 = "Errorf ''unable re-add original edge with new dep still causes cycle''"
  let ?gX = "fst (addVertex (emptyGraph ?S strict) (OriginPackage pkgX))"
  note T = NewGraph_accumulates_errors
  note T2 = T [THEN conjunct2, THEN conjunct1]
  have o: "applyOptions [] \<lparr>allowUnresolved = False, repos = [], keys = []\<rparr> = Inr strict"
    by (simp add: strict_def)

  let ?B = "buildLoop localWorld ?S strict (Packages ?S) (?init ?S)"
  let ?es = "[?E1, ?E2, ?E3, ?E4]"
  have "\<not> isl ?B" and "snd (snd (projr ?B)) = ?es"
    by (simp_all add: example_defs5)
  then have b: "?B = Inr (fst (projr ?B), fst (snd (projr ?B)), ?es)"
    by (cases ?B) (auto simp: prod_eq_iff)
  from T [where w = localWorld and pkgs = ?S and gopts = strict and options = "[]"
      and ?g1.0 = "fst (projr ?B)" and ?indexes1.0 = "fst (snd (projr ?B))" and es = ?es,
      THEN conjunct2, THEN conjunct2, THEN conjunct2, THEN conjunct1] o b
  have 1: "NewGraph localWorld ?S [] = Inl (Wrap ''unable to build graph'' (Join ?es))"
    by (simp add: strict_def)

  let ?K = "buildLoop refusingWorld (storeOf [pkgE, pkgK]) strict (Packages (storeOf [pkgE, pkgK]))
      (?init (storeOf [pkgE, pkgK]))"
  let ?f = "Wrap ''failed to get key material''
              (Wrap ''failed to read repository'' (External ''permission denied''))"
  have k: "?K = Inl ?f"
    by (simp add: example_defs5)
  have 2: "NewGraph refusingWorld (storeOf [pkgE, pkgK]) [] = Inl ?f"
    using k by (simp add: NewGraph_def strict_def)
  from T [where w = refusingWorld and pkgs = "storeOf [pkgE, pkgK]" and gopts = strict
      and cs = "Packages (storeOf [pkgE, pkgK])" and st = "?init (storeOf [pkgE, pkgK])" and e = ?f,
      THEN conjunct2, THEN conjunct1] k
  have 3: "fatal ?f" by simp

  have "\<not> isl (NewGraph world twoPackages [])"
    by (simp add: example_defs)
  then have r: "NewGraph world twoPackages [] = Inr (projr (NewGraph world twoPackages []))"
    by simp
  from T [where w = world and pkgs = twoPackages and options = "[]"
      and g' = "projr (NewGraph world twoPackages [])",
      THEN conjunct2, THEN conjunct2, THEN conjunct1] r
  have 4: "[] \<notin> set (EnvPackages pkgA) \<and> [] \<notin> set (EnvPackages pkgB)"
    by (simp add: twoPackages_def)
  have na: "\<not> allowUnresolved (opts (projr (NewGraph world twoPackages [])))"
    by (simp add: example_defs)
  from T [where w = world and pkgs = twoPackages and options = "[]"
      and g' = "projr (NewGraph world twoPackages [])",
      THEN conjunct2, THEN conjunct2, THEN conjunct2, THEN conjunct2, THEN conjunct2,
      THEN conjunct2, THEN conjunct2, THEN conjunct2, THEN conjunct2, rule_format,
      of pkgA "''b''"] r na
  have 5: "\<exists>ixs rs r. NewPkgResolver world ixs ''b'' = Inr rs \<and> r \<in> set rs"
    by (auto simp: twoPackages_def pkgA_def)

  have sX: "\<not> allowUnresolved (opts ?gX)"
    by (simp add: example_defs5)
  have d0: "addBuildDeps searchShortest localResolver pkgX ''local-index'' [] (?gX, []) = (?gX, [])"
    by simp
  from T [where sp = searchShortest and resolver = localResolver and c = pkgX
      and lr = "''local-index''" and ?ds1.0 = "[]" and ?ga0.0 = ?gX and ?errs0.0 = "[]"
      and ga = ?gX and ea = "[]" and d = "[]" and ?ds2.0 = "[''zzz'', ''a'', ''b'']",
      THEN conjunct2, THEN conjunct2, THEN conjunct2, THEN conjunct2, THEN conjunct1] d0
  have 6: "addBuildDeps searchShortest localResolver pkgX ''local-index'' [[], ''zzz'', ''a'', ''b'']
         (?gX, [])
       = addBuildDeps searchShortest localResolver pkgX ''local-index'' [''zzz'', ''a'', ''b'']
           (?gX, [?E1])"
    by simp
  have rz: "localResolver ''zzz'' = Inr []"
    by (simp add: localResolver_def)
  from T [where gu = ?gX and resolver = localResolver and d = "''zzz''" and p = "OriginPackage pkgX"
      and lr = "''local-index''",
      THEN conjunct2, THEN conjunct2, THEN conjunct2, THEN conjunct2, THEN conjunct2,
      THEN conjunct1] sX rz
  have 7: "addAppropriatePackage localResolver ?gX (OriginPackage pkgX) ''zzz'' ''local-index''
       = (?gX, None, Some ?E2)"
    by simp
  have ra: "localResolver ''a''
      = Inr [\<lparr>candName = ''a'', candVersion = ''1-r0'', IndexUri = ''local-index'', Uri = ''local''\<rparr>]"
    by (simp add: localResolver_def)
  from T [where gu = ?gX and resolver = localResolver and d = "''a''" and p = "OriginPackage pkgX"
      and lr = "''local-index''"
      and rs = "[\<lparr>candName = ''a'', candVersion = ''1-r0'', IndexUri = ''local-index'', Uri = ''local''\<rparr>]",
      THEN conjunct2, THEN conjunct2, THEN conjunct2, THEN conjunct2, THEN conjunct2,
      THEN conjunct2, THEN conjunct1] sX ra
  have 8: "addAppropriatePackage localResolver ?gX (OriginPackage pkgX) ''a'' ''local-index''
       = (?gX, None, Some ?E3)"
    by (simp add: pkgX_def)
  have d2: "addBuildDeps searchShortest localResolver pkgX ''local-index'' [[], ''zzz''] (?gX, [])
      = (?gX, [?E1, ?E2])"
    using 7 by simp
  from T [where sp = searchShortest and resolver = localResolver and c = pkgX
      and lr = "''local-index''" and ?ds1.0 = "[[], ''zzz'']" and ?ga0.0 = ?gX and ?errs0.0 = "[]"
      and ga = ?gX and ea = "[?E1, ?E2]" and d = "''a''" and ?ds2.0 = "[''b'']"
      and gb = ?gX and cyc = None and ?e1.0 = ?E3,
      THEN conjunct2, THEN conjunct2, THEN conjunct2, THEN conjunct2, THEN conjunct1] d2 8
  have 9: "addBuildDeps searchShortest localResolver pkgX ''local-index'' [[], ''zzz'', ''a'', ''b'']
         (?gX, [])
       = addBuildDeps searchShortest localResolver pkgX ''local-index'' [''b'']
           (?gX, [?E1, ?E2, ?E3])"
    by simp

  let ?P = "addAppropriatePackage localResolver beforeRepair (OriginPackage pkgB) ''a'' ''local-index''"
  let ?R = "resolveCycle searchShortest localResolver (fst ?P) cycleBA ''a'' ''local-index''"
  have "snd ?P = (Some cycleBA, None)"
    by (simp add: example_defs5)
  then have p: "?P = (fst ?P, Some cycleBA, None)"
    by (simp add: prod_eq_iff)
  have "snd ?R = Some ?E4"
    by (simp add: example_defs5)
  then have rr: "?R = (fst ?R, Some ?E4)"
    by (simp add: prod_eq_iff)
  have d1: "addBuildDeps searchShortest localResolver pkgB ''local-index'' [] (beforeRepair, [])
      = (beforeRepair, [])"
    by simp
  from T [where sp = searchShortest and resolver = localResolver and c = pkgB
      and lr = "''local-index''" and ?ds1.0 = "[]" and ?ga0.0 = beforeRepair and ?errs0.0 = "[]"
      and ga = beforeRepair and ea = "[]" and d = "''a''" and ?ds2.0 = "[]"
      and gb = "fst ?P" and cy = cycleBA and gc = "fst ?R" and ?e2.0 = ?E4,
      THEN conjunct2, THEN conjunct2, THEN conjunct2, THEN conjunct2, THEN conjunct1] d1 p rr
  have 10: "snd (addBuildDeps searchShortest localResolver pkgB ''local-index'' [''a''] (beforeRepair, []))
       = [?E4]"
    by simp

  let ?st = "(emptyGraph ?S strict, Map.empty :: string \<rightharpoonup> string, [] :: error list)"
  let ?A = "addPackage localWorld ?S strict pkgX ?st"
  have "\<not> isl ?A" and ae: "snd (snd (projr ?A)) = [?E1, ?E2, ?E3]"
    by (simp_all add: example_defs5)
  then have a: "?A = Inr (projr ?A)"
    by simp
  have l0: "buildLoop localWorld ?S strict [] ?st = Inr ?st"
    by simp
  from T [where w = localWorld and pkgs = ?S and gopts = strict and ?cs1.0 = "[]" and st = ?st
      and ?st1.0 = ?st and c = pkgX and ?st2.0 = "projr ?A" and ?cs2.0 = "[pkgB]",
      THEN conjunct2, THEN conjunct2, THEN conjunct2, THEN conjunct2, THEN conjunct2,
      THEN conjunct2, THEN conjunct2, THEN conjunct1] l0 a
  have 11: "buildLoop localWorld ?S strict [pkgX, pkgB] ?st
       = buildLoop localWorld ?S strict [pkgB] (projr ?A)"
    by simp
  from ae have "projr ?A = (fst (projr ?A), fst (snd (projr ?A)), [?E1, ?E2, ?E3])"
    by (simp add: prod_eq_iff)
  with a have a': "?A = Inr (fst (projr ?A), fst (snd (projr ?A)), [?E1, ?E2, ?E3])"
    by simp
  from T [where w = localWorld and pkgs = ?S and gopts = strict and c = pkgX
      and g = "emptyGraph ?S strict" and indexes = "Map.empty" and errs = "[]"
      and ?g2.0 = "fst (projr ?A)" and ?indexes2.0 = "fst (snd (projr ?A))"
      and ?es2.0 = "[?E1, ?E2, ?E3]",
      THEN conjunct2, THEN conjunct2, THEN conjunct2, THEN conjunct2, THEN conjunct2,
      THEN conjunct2, THEN conjunct2, THEN conjunct2, THEN conjunct1] a'
  have 12: "\<exists>ixs. snd (addBuildDeps (ShortestPath localWorld)
                    (NewPkgResolver localWorld (ixs @ [Repository localWorld ?S ''x86_64'']))
                    pkgX (indexSource localWorld (Repository localWorld ?S ''x86_64''))
                    (EnvPackages pkgX)
                    (addSubpackages ?S pkgX (Subpackages pkgX)
                       (fst (addVertex (emptyGraph ?S strict) (OriginPackage pkgX)), [])))
          = [?E1, ?E2, ?E3]"
    by (metis snd_conv)
  from 1 2 3 r 4 5 6 7 8 9 10 11 12 show ?thesis by (intro conjI) simp_all
qed

end
